(* ===== verification/Prelude.thy ===== *)
theory Prelude
  imports Main "HOL-Library.Word" "HOL-Library.Sublist"
begin

text \<open>
  Shared vocabulary of the development: names for the machine types of the C++ code, the
  exceptions its standard library throws, a result type for code that may throw, and the
  list lemmas that several components use.

  The collections \<open>lookup_simps\<close> and \<open>guard_simps\<close> gather the rewrite rules that the
  keyed tables and the connection guards offer to the components that use them.
\<close>

named_theorems lookup_simps \<open>lookups after updates of the keyed tables\<close>
named_theorems guard_simps \<open>effects of acquiring and releasing a pooled connection\<close>

type_synonym u8 = "8 word"
type_synonym u16 = "16 word"
type_synonym u32 = "32 word"
type_synonym u64 = "64 word"
type_synonym i32 = "32 word"
type_synonym i64 = "64 word"
type_synonym bytes = "8 word list"

section \<open>Exceptions as values\<close>

text \<open>
  The exceptions the standard library raises in this code: \<open>std::stoll\<close> and
  \<open>std::stoi\<close> raise \<open>std::invalid_argument\<close> and \<open>std::out_of_range\<close>. \<open>NullPointer\<close> is the
  use of a null pointer where a C string is needed: \<open>std::logic_error\<close> when libstdc++ builds
  a \<open>std::string\<close> from it, undefined behaviour elsewhere.
\<close>

datatype exn = InvalidArgument | OutOfRange | NullPointer

type_synonym 'a throws = "exn + 'a"

fun ebind :: "'a throws \<Rightarrow> ('a \<Rightarrow> 'b throws) \<Rightarrow> 'b throws" where
  "ebind (Inl e) f = Inl e"
| "ebind (Inr x) f = f x"

text \<open>A loop that appends one converted element per turn and stops at the first throw.\<close>

fun emap :: "('a \<Rightarrow> 'b throws) \<Rightarrow> 'a list \<Rightarrow> 'b list throws" where
  "emap f [] = Inr []"
| "emap f (x # xs) = ebind (f x) (\<lambda>y. ebind (emap f xs) (\<lambda>ys. Inr (y # ys)))"

lemma ebind_Inr_iff: "ebind r f = Inr y \<longleftrightarrow> (\<exists>x. r = Inr x \<and> f x = Inr y)"
  by (cases r) auto

lemma ebind_Inl_iff: "ebind r f = Inl e \<longleftrightarrow> r = Inl e \<or> (\<exists>x. r = Inr x \<and> f x = Inl e)"
  by (cases r) auto

lemma ebind_assoc: "ebind (ebind r f) g = ebind r (\<lambda>x. ebind (f x) g)"
  by (cases r) auto

lemma emap_all_Inr: "(\<And>x. x \<in> set xs \<Longrightarrow> f x = Inr (g x)) \<Longrightarrow> emap f xs = Inr (map g xs)"
  by (induction xs) auto

lemma emap_Inr_iff: "emap f xs = Inr ys \<longleftrightarrow> list_all2 (\<lambda>x y. f x = Inr y) xs ys"
  by (induction xs arbitrary: ys) (auto simp: ebind_Inr_iff list_all2_Cons1)

lemma emap_length: "emap f xs = Inr ys \<Longrightarrow> length ys = length xs"
  by (auto simp: emap_Inr_iff list_all2_lengthD)

lemma emap_set:
  assumes "emap f xs = Inr ys" and "y \<in> set ys"
  shows "\<exists>x \<in> set xs. f x = Inr y"
  using assms by (induction xs arbitrary: ys) (auto simp: ebind_Inr_iff)

section \<open>Sizes\<close>

text \<open>
  A \<open>size_t\<close> counter kept as a number below \<open>2 ^ 64\<close>, with the wrap-around of \<open>++\<close> and
  \<open>--\<close> written out.
\<close>

definition size_inc :: "nat \<Rightarrow> nat" where
  "size_inc n = (n + 1) mod 2 ^ 64"

definition size_dec :: "nat \<Rightarrow> nat" where
  "size_dec n = (if n = 0 then 2 ^ 64 - 1 else n - 1)"

lemma size_inc_small [simp]: "n < 2 ^ 64 - 1 \<Longrightarrow> size_inc n = Suc n"
  by (simp add: size_inc_def)

lemma size_dec_pos [simp]: "0 < n \<Longrightarrow> size_dec n = n - 1"
  by (simp add: size_dec_def)

section \<open>Lists\<close>

lemma takeWhile_all: "(\<And>x. x \<in> set xs \<Longrightarrow> P x) \<Longrightarrow> takeWhile P (xs @ ys) = xs @ takeWhile P ys"
  by (induction xs) auto

lemma dropWhile_all: "(\<And>x. x \<in> set xs \<Longrightarrow> P x) \<Longrightarrow> dropWhile P (xs @ ys) = dropWhile P ys"
  by (induction xs) auto

lemma append_sep_inject:
  assumes "xs @ c # ys = xs' @ c # ys'" and "c \<notin> set xs" and "c \<notin> set xs'"
  shows "xs = xs' \<and> ys = ys'"
  using assms
proof (induction xs arbitrary: xs')
  case Nil
  then show ?case by (cases xs') auto
next
  case (Cons x xs)
  then show ?case by (cases xs') auto
qed

lemma length_filter_mono: "(\<And>x. P x \<Longrightarrow> Q x) \<Longrightarrow> length (filter P xs) \<le> length (filter Q xs)"
  by (induction xs) auto

lemma sorted_map_take: "sorted (map k xs) \<Longrightarrow> sorted (map k (take n xs))"
  by (simp add: take_map [symmetric] sorted_wrt_take)

lemma take_sorted_rest:
  assumes "sorted (map k xs)" and "x \<in> set xs" and "x \<notin> set (take n xs)"
  shows "length (take n xs) = n \<and> (\<forall>y \<in> set (take n xs). k y \<le> k x)"
proof -
  have "x \<in> set (drop n xs)"
    using assms(2,3) append_take_drop_id [of n xs] by (metis UnE set_append)
  moreover have "sorted (map k (take n xs) @ map k (drop n xs))"
    using assms(1) by (simp flip: map_append)
  ultimately have "\<forall>y \<in> set (take n xs). k y \<le> k x"
    by (auto simp: sorted_append)
  moreover have "n < length xs"
    using \<open>x \<in> set (drop n xs)\<close> by (cases "n < length xs") auto
  ultimately show ?thesis by simp
qed

end
