(* ===== verification/Cpp_Text.thy ===== *)
theory Cpp_Text
  imports Prelude
begin

text \<open>
  The part of \<open>std::string\<close> and of the numeric conversions of the C++ standard library that
  the servers use: \<open>c_str\<close>, \<open>find\<close>, \<open>find_first_of\<close>, \<open>rfind\<close>, \<open>substr\<close>,
  \<open>std::to_string\<close>, \<open>std::stoll\<close> and \<open>std::stoi\<close>. A \<open>char\<close> is one byte, as in C++.
  \<open>npos\<close> is \<open>None\<close>. Round trips and search lemmas follow the definitions.
\<close>

section \<open>C strings\<close>

definition NUL :: char where "NUL = CHR 0x00"

definition c_str :: "string \<Rightarrow> string" where
  "c_str s = takeWhile (\<lambda>c. c \<noteq> NUL) s"

lemma c_str_id: "NUL \<notin> set s \<Longrightarrow> c_str s = s"
  by (auto simp: c_str_def takeWhile_eq_all_conv)

lemma c_str_no_NUL: "NUL \<notin> set (c_str s)"
  by (auto simp: c_str_def dest: set_takeWhileD)

lemma c_str_idem [simp]: "c_str (c_str s) = c_str s"
  by (rule c_str_id) (rule c_str_no_NUL)

lemma c_str_append: "NUL \<notin> set s \<Longrightarrow> c_str (s @ t) = s @ c_str t"
  unfolding c_str_def by (rule takeWhile_all) auto

section \<open>Searching\<close>

text \<open>\<open>s.find(pat)\<close>: the least position at which \<open>pat\<close> starts.\<close>

fun find_sub :: "string \<Rightarrow> string \<Rightarrow> nat option" where
  "find_sub pat [] = (if pat = [] then Some 0 else None)"
| "find_sub pat (c # s) =
     (if prefix pat (c # s) then Some 0 else map_option Suc (find_sub pat s))"

text \<open>\<open>s.find(pat, from)\<close> for a start inside the string.\<close>

definition find_from :: "string \<Rightarrow> string \<Rightarrow> nat \<Rightarrow> nat option" where
  "find_from pat s from = map_option ((+) from) (find_sub pat (drop from s))"

text \<open>\<open>s.find_first_of(cs, from)\<close>.\<close>

fun find_char :: "char list \<Rightarrow> string \<Rightarrow> nat option" where
  "find_char cs [] = None"
| "find_char cs (c # s) = (if c \<in> set cs then Some 0 else map_option Suc (find_char cs s))"

definition find_first_of :: "char list \<Rightarrow> string \<Rightarrow> nat \<Rightarrow> nat option" where
  "find_first_of cs s from = map_option ((+) from) (find_char cs (drop from s))"

text \<open>\<open>s.rfind(c)\<close>: the last position of a character.\<close>

fun rfind_char :: "char \<Rightarrow> string \<Rightarrow> nat option" where
  "rfind_char x [] = None"
| "rfind_char x (c # s) =
     (case rfind_char x s of
        Some i \<Rightarrow> Some (Suc i)
      | None \<Rightarrow> (if c = x then Some 0 else None))"

text \<open>\<open>s.substr(pos, end - pos)\<close>, where \<open>end\<close> may be \<open>npos\<close> (then the rest is taken).\<close>

definition substr_to :: "string \<Rightarrow> nat \<Rightarrow> nat option \<Rightarrow> string" where
  "substr_to s pos stop =
     (case stop of None \<Rightarrow> drop pos s | Some e \<Rightarrow> take (e - pos) (drop pos s))"

lemma find_sub_Some: "find_sub pat s = Some i \<Longrightarrow> prefix pat (drop i s) \<and> i \<le> length s"
  by (induction pat s arbitrary: i rule: find_sub.induct) (auto split: if_splits)

lemma find_sub_first: "find_sub pat s = Some i \<Longrightarrow> j < i \<Longrightarrow> \<not> prefix pat (drop j s)"
proof (induction pat s arbitrary: i j rule: find_sub.induct)
  case (2 pat c s)
  then show ?case by (cases j) (auto split: if_splits)
qed (auto split: if_splits)

lemma find_sub_None: "find_sub pat s = None \<Longrightarrow> \<not> prefix pat (drop j s)"
proof (induction pat s arbitrary: j rule: find_sub.induct)
  case (2 pat c s)
  then show ?case by (cases j) (auto split: if_splits)
qed (auto split: if_splits)

lemma find_sub_here: "prefix pat s \<Longrightarrow> find_sub pat s = Some 0"
  by (cases s) auto

lemma find_char_append:
  "set s \<inter> set cs = {} \<Longrightarrow> find_char cs (s @ t) = map_option ((+) (length s)) (find_char cs t)"
  by (cases "find_char cs t"; induction s) auto

lemma find_char_here: "c \<in> set cs \<Longrightarrow> find_char cs (c # s) = Some 0"
  by simp

lemma find_char_None: "set s \<inter> set cs = {} \<Longrightarrow> find_char cs s = None"
  by (induction s) auto

text \<open>A pattern whose first character is absent from a prefix of the text starts after it.\<close>

lemma find_sub_skip:
  "c \<notin> set s \<Longrightarrow> find_sub (c # pat) (s @ t) = map_option ((+) (length s)) (find_sub (c # pat) t)"
  by (cases "find_sub (c # pat) t"; induction s) auto

lemma find_sub_at:
  assumes "\<And>j. j < length pre \<Longrightarrow> \<not> prefix pat (drop j (pre @ pat @ post))"
  shows "find_sub pat (pre @ pat @ post) = Some (length pre)"
  using assms
proof (induction pre)
  case Nil
  then show ?case by (simp add: find_sub_here)
next
  case (Cons c pre)
  have "\<not> prefix pat (drop j (pre @ pat @ post))" if "j < length pre" for j
    using Cons.prems [of "Suc j"] that by simp
  moreover have "\<not> prefix pat (c # pre @ pat @ post)"
    using Cons.prems [of 0] by simp
  ultimately show ?case using Cons.IH by simp
qed

lemma find_sub_single: "find_sub [c] s = find_char [c] s"
  by (induction s) auto

lemma rfind_char_None: "x \<notin> set s \<Longrightarrow> rfind_char x s = None"
  by (induction s) auto

lemma rfind_char_last: "x \<notin> set t \<Longrightarrow> rfind_char x (s @ x # t) = Some (length s)"
  by (induction s) (auto simp: rfind_char_None)

section \<open>Printing integers\<close>

definition digit_char :: "nat \<Rightarrow> char" where
  "digit_char d = char_of (48 + d)"

fun nat_str :: "nat \<Rightarrow> string" where
  "nat_str n = (if n < 10 then [digit_char n] else nat_str (n div 10) @ [digit_char (n mod 10)])"

declare nat_str.simps [simp del]

definition int_str :: "int \<Rightarrow> string" where
  "int_str i = (if i < 0 then CHR ''-'' # nat_str (nat (- i)) else nat_str (nat i))"

text \<open>\<open>std::to_string\<close> of a signed integer.\<close>

definition to_string :: "'a::len word \<Rightarrow> string" where
  "to_string w = int_str (sint w)"

section \<open>Reading integers\<close>

definition is_digit :: "char \<Rightarrow> bool" where
  "is_digit c \<longleftrightarrow> 48 \<le> (of_char c :: nat) \<and> (of_char c :: nat) \<le> 57"

definition digit_val :: "char \<Rightarrow> nat" where
  "digit_val c = of_char c - 48"

definition is_space :: "char \<Rightarrow> bool" where
  "is_space c \<longleftrightarrow> c = CHR '' '' \<or> (9 \<le> (of_char c :: nat) \<and> (of_char c :: nat) \<le> 13)"

definition digits_val :: "string \<Rightarrow> nat" where
  "digits_val ds = fold (\<lambda>c n. 10 * n + digit_val c) ds 0"

text \<open>
  The conversion of \<open>strtoll\<close> in base 10: blanks, an optional sign, then the longest run of
  digits; \<open>None\<close> when there is no digit to convert.
\<close>

definition strtol10 :: "string \<Rightarrow> int option" where
  "strtol10 s =
     (let s1 = dropWhile is_space s;
          neg = (s1 \<noteq> [] \<and> hd s1 = CHR ''-'');
          s2 = (if s1 \<noteq> [] \<and> (hd s1 = CHR ''-'' \<or> hd s1 = CHR ''+'') then tl s1 else s1);
          ds = takeWhile is_digit s2
      in if ds = [] then None
         else Some (if neg then - int (digits_val ds) else int (digits_val ds)))"

definition stoll :: "string \<Rightarrow> i64 throws" where
  "stoll s = (case strtol10 s of
     None \<Rightarrow> Inl InvalidArgument
   | Some v \<Rightarrow> if - (2 ^ 63) \<le> v \<and> v < 2 ^ 63 then Inr (word_of_int v) else Inl OutOfRange)"

definition stoi :: "string \<Rightarrow> i32 throws" where
  "stoi s = (case strtol10 s of
     None \<Rightarrow> Inl InvalidArgument
   | Some v \<Rightarrow> if - (2 ^ 31) \<le> v \<and> v < 2 ^ 31 then Inr (word_of_int v) else Inl OutOfRange)"

section \<open>Digits\<close>

lemma of_char_digit_char: "d < 10 \<Longrightarrow> (of_char (digit_char d) :: nat) = 48 + d"
  by (simp add: digit_char_def of_char_of)

lemma is_digit_digit_char [simp]: "d < 10 \<Longrightarrow> is_digit (digit_char d)"
  by (simp add: is_digit_def of_char_digit_char)

lemma digit_val_digit_char [simp]: "d < 10 \<Longrightarrow> digit_val (digit_char d) = d"
  by (simp add: digit_val_def of_char_digit_char)

lemma is_digit_minus [simp]: "\<not> is_digit (CHR ''-'')"
  by (simp add: is_digit_def)

lemma digits_val_snoc: "digits_val (ds @ [c]) = 10 * digits_val ds + digit_val c"
  by (simp add: digits_val_def)

lemma nat_str_small: "n < 10 \<Longrightarrow> nat_str n = [digit_char n]"
  by (simp add: nat_str.simps)

lemma nat_str_big: "\<not> n < 10 \<Longrightarrow> nat_str n = nat_str (n div 10) @ [digit_char (n mod 10)]"
  by (subst nat_str.simps) simp

lemma nat_str_digits: "c \<in> set (nat_str n) \<Longrightarrow> is_digit c"
proof (induction n rule: nat_str.induct)
  case (1 n)
  then show ?case by (cases "n < 10") (auto simp: nat_str_small nat_str_big)
qed

lemma nat_str_not_Nil [simp]: "nat_str n \<noteq> []"
  by (cases "n < 10") (auto simp: nat_str_small nat_str_big)

lemma digits_val_nat_str [simp]: "digits_val (nat_str n) = n"
proof (induction n rule: nat_str.induct)
  case (1 n)
  then show ?case
    by (cases "n < 10") (auto simp: nat_str_small nat_str_big digits_val_snoc, simp add: digits_val_def)
qed

lemma hd_nat_str_digit: "is_digit (hd (nat_str n))"
  by (rule nat_str_digits) (rule hd_in_set, simp)

lemma int_str_chars: "c \<in> set (int_str i) \<Longrightarrow> is_digit c \<or> c = CHR ''-''"
  by (auto simp: int_str_def dest: nat_str_digits split: if_splits)

lemma int_str_not_Nil [simp]: "int_str i \<noteq> []"
  by (simp add: int_str_def)

lemma is_digit_not_space: "is_digit c \<Longrightarrow> \<not> is_space c"
  by (auto simp: is_digit_def is_space_def)

lemma minus_not_space [simp]: "\<not> is_space (CHR ''-'')"
  by (simp add: is_space_def)

lemma int_str_hd_not_space: "\<not> is_space (hd (int_str i))"
  using int_str_chars [OF hd_in_set [OF int_str_not_Nil, of i]] is_digit_not_space minus_not_space
  by metis

text \<open>Reading back a printed integer, with anything but a digit behind it.\<close>

lemma strtol10_int_str:
  assumes "rest = [] \<or> \<not> is_digit (hd rest)"
  shows "strtol10 (int_str i @ rest) = Some i"
proof -
  have blanks: "dropWhile is_space (int_str i @ rest) = int_str i @ rest"
    using int_str_hd_not_space [of i] by (cases "int_str i") auto
  have stop: "takeWhile is_digit rest = []"
    using assms by (cases rest) auto
  have digits: "takeWhile is_digit (nat_str n @ rest) = nat_str n" for n
    using stop by (subst takeWhile_all) (auto dest: nat_str_digits)
  have "hd (nat_str n) \<noteq> CHR ''-''" "hd (nat_str n) \<noteq> CHR ''+''" for n
    using hd_nat_str_digit [of n] by (auto simp: is_digit_def)
  then show ?thesis
    using blanks digits unfolding strtol10_def int_str_def Let_def
    by (cases "i < 0") (auto simp: hd_append)
qed

lemma strtol10_int_str0 [simp]: "strtol10 (int_str i) = Some i"
  using strtol10_int_str [of "[]" i] by simp

lemma sint_range64: "- (2 ^ 63) \<le> sint (w :: i64) \<and> sint w < 2 ^ 63"
  using sint_ge [of w] sint_lt [of w] by simp

lemma stoll_to_string [simp]: "stoll (to_string w) = Inr w"
  using sint_range64 [of w] by (simp add: stoll_def to_string_def)

lemma stoi_int_str:
  "- (2 ^ 31) \<le> i \<Longrightarrow> i < 2 ^ 31 \<Longrightarrow> stoi (int_str i) = Inr (word_of_int i)"
  by (simp add: stoi_def)

lemma stoi_to_string [simp]: "stoi (to_string (w :: i32)) = Inr w"
  using sint_ge [of w] sint_lt [of w] by (simp add: stoi_def to_string_def)

lemma int_str_inject [simp]: "int_str i = int_str j \<longleftrightarrow> i = j"
  by (metis option.inject strtol10_int_str0)

lemma to_string_inject [simp]: "to_string (v :: 'a::len word) = to_string w \<longleftrightarrow> v = w"
  by (auto simp: to_string_def intro: signed_word_eqI)

lemma to_string_chars: "c \<in> set (to_string w) \<Longrightarrow> is_digit c \<or> c = CHR ''-''"
  by (simp add: to_string_def int_str_chars)

lemma to_string_not_Nil [simp]: "to_string w \<noteq> []"
  by (simp add: to_string_def)

lemma to_string_no_NUL: "NUL \<notin> set (to_string w)"
  by (auto dest!: to_string_chars simp: is_digit_def NUL_def)

end
