(* ===== verification/Im_Proto.thy ===== *)
theory Im_Proto
  imports Cpp_Text
begin

text \<open>
  The messages of \<open>proto/im.proto\<close> and \<open>proto/im_service.proto\<close> as the generated C++
  classes hold them: one record per message, fields in the order of the schema, and a default
  instance with the proto3 default in every field. A \<open>set_f\<close> call of the code is a record
  update. The wire format (\<open>ParseFromArray\<close>, \<open>SerializeToString\<close>) is generated code and
  a parameter of the models that use it.
\<close>

section \<open>Enumerations\<close>

text \<open>proto3 enumerations are open: a number that no enumerator has is kept as it is.\<close>

datatype ErrorCode =
    ERR_SUCCESS
  | ERR_SYS_ERROR
  | ERR_AUTH_FAIL
  | ERR_USER_NOT_FOUND
  | ERR_NOT_FRIEND
  | ERR_UNRECOGNIZED i32

fun err_number :: "ErrorCode \<Rightarrow> i32" where
  "err_number ERR_SUCCESS = 0"
| "err_number ERR_SYS_ERROR = 1"
| "err_number ERR_AUTH_FAIL = 1001"
| "err_number ERR_USER_NOT_FOUND = 1002"
| "err_number ERR_NOT_FRIEND = 1003"
| "err_number (ERR_UNRECOGNIZED n) = n"

datatype MsgType = MSG_TEXT | MSG_IMAGE | MSG_AUDIO | MSG_FILE | MSG_UNRECOGNIZED i32

section \<open>Gateway protocol\<close>

record LoginReq =
  lq_uid :: i64
  lq_token :: string
  lq_device_id :: string
  lq_last_msg_id :: i64

record LoginRes =
  lr_err_code :: ErrorCode
  lr_err_msg :: string
  lr_session_id :: string
  lr_server_time :: i64

definition LoginRes_default :: LoginRes where
  "LoginRes_default =
     \<lparr>lr_err_code = ERR_SUCCESS, lr_err_msg = [], lr_session_id = [], lr_server_time = 0\<rparr>"

record ChatMsg =
  cm_msg_id :: i64
  cm_from_uid :: i64
  cm_to_uid :: i64
  cm_session_id :: i64
  cm_msg_type :: MsgType
  cm_content :: string
  cm_create_time :: i64

definition ChatMsg_default :: ChatMsg where
  "ChatMsg_default =
     \<lparr>cm_msg_id = 0, cm_from_uid = 0, cm_to_uid = 0, cm_session_id = 0,
      cm_msg_type = MSG_TEXT, cm_content = [], cm_create_time = 0\<rparr>"

record MsgSendReq =
  sq_msg :: ChatMsg

record MsgSendRes =
  sr_err_code :: ErrorCode
  sr_err_msg :: string
  sr_msg_id :: i64
  sr_create_time :: i64

definition MsgSendRes_default :: MsgSendRes where
  "MsgSendRes_default =
     \<lparr>sr_err_code = ERR_SUCCESS, sr_err_msg = [], sr_msg_id = 0, sr_create_time = 0\<rparr>"

record MsgPush =
  mp_msg :: ChatMsg

record SyncMsgReq =
  yq_uid :: i64
  yq_last_msg_id :: i64

record SyncMsgRes =
  yr_err_code :: i32
  yr_err_msg :: string
  yr_msgs :: "ChatMsg list"

definition SyncMsgRes_default :: SyncMsgRes where
  "SyncMsgRes_default = \<lparr>yr_err_code = 0, yr_err_msg = [], yr_msgs = []\<rparr>"

section \<open>Accounts and uploads\<close>

record RegisterReq =
  rq_email :: string
  rq_nickname :: string
  rq_password :: string

record RegisterRes =
  rr_err_code :: i32
  rr_err_msg :: string
  rr_uid :: i64

definition RegisterRes_default :: RegisterRes where
  "RegisterRes_default = \<lparr>rr_err_code = 0, rr_err_msg = [], rr_uid = 0\<rparr>"

record HttpLoginReq =
  hq_email :: string
  hq_password :: string

record HttpLoginRes =
  hr_err_code :: i32
  hr_err_msg :: string
  hr_uid :: i64
  hr_token :: string
  hr_nickname :: string
  hr_avatar :: string

definition HttpLoginRes_default :: HttpLoginRes where
  "HttpLoginRes_default =
     \<lparr>hr_err_code = 0, hr_err_msg = [], hr_uid = 0, hr_token = [], hr_nickname = [],
      hr_avatar = []\<rparr>"

record GetUploadUrlReq =
  uq_uid :: i64
  uq_file_name :: string

record GetUploadUrlRes =
  ur_err_code :: i32
  ur_err_msg :: string
  ur_upload_url :: string
  ur_download_url :: string

definition GetUploadUrlRes_default :: GetUploadUrlRes where
  "GetUploadUrlRes_default =
     \<lparr>ur_err_code = 0, ur_err_msg = [], ur_upload_url = [], ur_download_url = []\<rparr>"

section \<open>Friends\<close>

record SendFriendReq =
  fq_from_uid :: i64
  fq_to_uid :: i64
  fq_reason :: string

record SendFriendRes =
  fs_err_code :: ErrorCode
  fs_err_msg :: string
  fs_req_id :: i64

definition SendFriendRes_default :: SendFriendRes where
  "SendFriendRes_default = \<lparr>fs_err_code = ERR_SUCCESS, fs_err_msg = [], fs_req_id = 0\<rparr>"

record RespondFriendReq =
  pq_req_id :: i64
  pq_accept :: bool

record RespondFriendRes =
  pr_err_code :: ErrorCode
  pr_err_msg :: string

definition RespondFriendRes_default :: RespondFriendRes where
  "RespondFriendRes_default = \<lparr>pr_err_code = ERR_SUCCESS, pr_err_msg = []\<rparr>"

record FriendRequest =
  fr_req_id :: i64
  fr_from_uid :: i64
  fr_to_uid :: i64
  fr_reason :: string
  fr_create_time :: i64
  fr_status :: i32

definition FriendRequest_default :: FriendRequest where
  "FriendRequest_default =
     \<lparr>fr_req_id = 0, fr_from_uid = 0, fr_to_uid = 0, fr_reason = [], fr_create_time = 0,
      fr_status = 0\<rparr>"

record FriendListReq =
  gq_uid :: i64

record FriendListRes =
  gr_err_code :: ErrorCode
  gr_friend_uids :: "i64 list"

definition FriendListRes_default :: FriendListRes where
  "FriendListRes_default = \<lparr>gr_err_code = ERR_SUCCESS, gr_friend_uids = []\<rparr>"

record GetFriendReqsReq =
  jq_uid :: i64

record GetFriendReqsRes =
  jr_err_code :: ErrorCode
  jr_requests :: "FriendRequest list"

definition GetFriendReqsRes_default :: GetFriendReqsRes where
  "GetFriendReqsRes_default = \<lparr>jr_err_code = ERR_SUCCESS, jr_requests = []\<rparr>"

section \<open>Push service\<close>

record PushMsgReq =
  psq_to_uid :: i64
  psq_content :: bytes

record PushMsgRes =
  psr_err_code :: i32
  psr_err_msg :: string

definition PushMsgRes_default :: PushMsgRes where
  "PushMsgRes_default = \<lparr>psr_err_code = 0, psr_err_msg = []\<rparr>"

lemmas proto_defaults =
  LoginRes_default_def ChatMsg_default_def MsgSendRes_default_def SyncMsgRes_default_def
  RegisterRes_default_def HttpLoginRes_default_def GetUploadUrlRes_default_def
  SendFriendRes_default_def RespondFriendRes_default_def FriendRequest_default_def
  FriendListRes_default_def GetFriendReqsRes_default_def PushMsgRes_default_def

end
