(* ===== verification/Packet.thy ===== *)
theory Packet
  imports Im_Proto
begin

unbundle bit_operations_syntax

text \<open>
  \<open>server/gateway/packet.h\<close>: the twelve byte header in front of every WebSocket message,
  and \<open>PackPushMsg\<close> of \<open>server/logic_server/main.cc\<close>, which builds the same header by
  hand. Both go through \<open>htonl\<close>/\<open>htons\<close> and a raw copy of the integer's memory, so the
  model has the byte order of the host as a parameter and proves that it does not matter.
  The framing laws are the locale \<open>wire_codec\<close>, interpreted on the encoder of the gateway.
\<close>

section \<open>Integers in memory\<close>

datatype endian = Little | Big

fun le_bytes :: "nat \<Rightarrow> 'a::len word \<Rightarrow> bytes" where
  "le_bytes 0 w = []"
| "le_bytes (Suc n) w = ucast w # le_bytes n (drop_bit 8 w)"

fun le_load :: "bytes \<Rightarrow> 'a::len word" where
  "le_load [] = 0"
| "le_load (b # bs) = ucast b OR push_bit 8 (le_load bs)"

lemma le_bytes_numeral [simp]:
  "le_bytes (numeral k) w = ucast w # le_bytes (pred_numeral k) (drop_bit 8 w)"
  by (simp add: numeral_eq_Suc)

text \<open>The bytes of an integer as \<open>memcpy\<close> sees them, and the integer such bytes hold.\<close>

definition mem_bytes :: "endian \<Rightarrow> nat \<Rightarrow> 'a::len word \<Rightarrow> bytes" where
  "mem_bytes h n w = (case h of Little \<Rightarrow> le_bytes n w | Big \<Rightarrow> rev (le_bytes n w))"

definition mem_load :: "endian \<Rightarrow> bytes \<Rightarrow> 'a::len word" where
  "mem_load h bs = (case h of Little \<Rightarrow> le_load bs | Big \<Rightarrow> le_load (rev bs))"

text \<open>
  \<open>htonl\<close> and \<open>ntohl\<close> of \<open>arpa/inet.h\<close> (and the 16-bit pair): the identity on a
  big-endian host, the byte swap on a little-endian one.
\<close>

definition hton :: "endian \<Rightarrow> nat \<Rightarrow> 'a::len word \<Rightarrow> 'a word" where
  "hton h n w = (case h of Little \<Rightarrow> le_load (rev (le_bytes n w)) | Big \<Rightarrow> w)"

abbreviation "htonl h (w :: u32) \<equiv> hton h 4 w"
abbreviation "htons h (w :: u16) \<equiv> hton h 2 w"
abbreviation "ntohl h (w :: u32) \<equiv> hton h 4 w"
abbreviation "ntohs h (w :: u16) \<equiv> hton h 2 w"

lemma length_le_bytes [simp]: "length (le_bytes n w) = n"
  by (induction n arbitrary: w) auto

lemma length_mem_bytes [simp]: "length (mem_bytes h n w) = n"
  by (cases h) (auto simp: mem_bytes_def)

lemma nth_le_bytes: "k < n \<Longrightarrow> le_bytes n w ! k = ucast (drop_bit (8 * k) w)"
proof (induction n arbitrary: w k)
  case (Suc n)
  then show ?case by (cases k) (auto simp: drop_bit_drop_bit add.commute)
qed simp

lemma bit_u8: "bit (b :: u8) j \<Longrightarrow> j < 8"
  using bit_imp_le_length [of b j] by simp

lemma bit_le_load:
  "bit (le_load bs :: 'a::len word) i \<longleftrightarrow>
     i < LENGTH('a) \<and> i div 8 < length bs \<and> bit (bs ! (i div 8)) (i mod 8)"
proof (induction bs arbitrary: i)
  case (Cons b bs)
  show ?case
  proof (cases "i < 8")
    case True
    then show ?thesis by (auto simp: bit_simps)
  next
    case False
    then obtain k where "i = 8 + k" using le_Suc_ex not_less by blast
    moreover have "(8 + k) div 8 = Suc (k div 8)" by simp
    ultimately show ?thesis by (auto simp: bit_simps Cons.IH dest: bit_u8)
  qed
qed simp

lemma le_load_le_bytes:
  assumes "8 * n = LENGTH('a::len)"
  shows "le_load (le_bytes n (w :: 'a word)) = w"
proof (rule bit_word_eqI)
  fix i assume i: "i < LENGTH('a)"
  then have "i div 8 < n" using assms by auto
  then show "bit (le_load (le_bytes n w) :: 'a word) i = bit w i"
    using i by (simp add: bit_le_load nth_le_bytes bit_simps)
qed

lemma le_bytes_le_load:
  assumes "8 * length bs = LENGTH('a::len)"
  shows "le_bytes (length bs) (le_load bs :: 'a word) = bs"
proof (rule nth_equalityI)
  fix k assume "k < length (le_bytes (length bs) (le_load bs :: 'a word))"
  then have k: "k < length bs" by simp
  show "le_bytes (length bs) (le_load bs :: 'a word) ! k = bs ! k"
  proof (rule bit_word_eqI)
    fix j assume "j < LENGTH(8)"
    then have "j < 8" by simp
    then show "bit (le_bytes (length bs) (le_load bs :: 'a word) ! k) j = bit (bs ! k) j"
      using k assms by (simp add: nth_le_bytes bit_simps bit_le_load)
  qed
qed simp

text \<open>
  Whatever the host, \<open>htonl\<close> followed by the copy to memory leaves the big-endian bytes,
  and reading them back followed by \<open>ntohl\<close> returns the integer.
\<close>

definition be_bytes :: "nat \<Rightarrow> 'a::len word \<Rightarrow> bytes" where
  "be_bytes n w = rev (le_bytes n w)"

definition be_load :: "bytes \<Rightarrow> 'a::len word" where
  "be_load bs = le_load (rev bs)"

lemma length_be_bytes [simp]: "length (be_bytes n w) = n"
  by (simp add: be_bytes_def)

lemma mem_bytes_hton:
  assumes "8 * n = LENGTH('a::len)"
  shows "mem_bytes h n (hton h n (w :: 'a word)) = be_bytes n w"
  using assms le_bytes_le_load [of "rev (le_bytes n w)", where 'a = 'a]
  by (cases h) (auto simp: mem_bytes_def hton_def be_bytes_def)

lemma hton_mem_load:
  assumes "8 * length bs = LENGTH('a::len)"
  shows "hton h (length bs) (mem_load h bs :: 'a word) = be_load bs"
  using assms le_bytes_le_load [of bs, where 'a = 'a]
  by (cases h) (auto simp: mem_load_def hton_def be_load_def)

lemma hton_mem_load_len:
  "length bs = n \<Longrightarrow> 8 * n = LENGTH('a::len) \<Longrightarrow>
   hton h n (mem_load h bs :: 'a word) = be_load bs"
  using hton_mem_load [of bs h, where 'a = 'a] by simp

lemma be_load_be_bytes:
  "8 * n = LENGTH('a::len) \<Longrightarrow> be_load (be_bytes n (w :: 'a word)) = w"
  by (simp add: be_load_def be_bytes_def le_load_le_bytes)

lemma be_bytes_be_load:
  "8 * length bs = LENGTH('a::len) \<Longrightarrow> be_bytes (length bs) (be_load bs :: 'a word) = bs"
  using le_bytes_le_load [of "rev bs", where 'a = 'a] by (simp add: be_load_def be_bytes_def)

section \<open>The header\<close>

definition HEADER_LEN :: nat where
  "HEADER_LEN = 12"

record PacketHeader =
  ph_length :: u32
  ph_version :: u16
  ph_cmd_id :: u16
  ph_seq_id :: u32

text \<open>\<open>memcpy(buffer + off, src, n)\<close> into a buffer that is long enough.\<close>

definition memcpy_at :: "nat \<Rightarrow> bytes \<Rightarrow> bytes \<Rightarrow> bytes" where
  "memcpy_at off src buf = take off buf @ src @ drop (off + length src) buf"

definition EncodeHeader :: "endian \<Rightarrow> PacketHeader \<Rightarrow> bytes \<Rightarrow> bytes" where
  "EncodeHeader h header buffer =
     (let net_len = htonl h (ph_length header);
          net_ver = htons h (ph_version header);
          net_cmd = htons h (ph_cmd_id header);
          net_seq = htonl h (ph_seq_id header);
          b1 = memcpy_at 0 (mem_bytes h 4 net_len) buffer;
          b2 = memcpy_at 4 (mem_bytes h 2 net_ver) b1;
          b3 = memcpy_at 6 (mem_bytes h 2 net_cmd) b2
      in memcpy_at 8 (mem_bytes h 4 net_seq) b3)"

text \<open>
  \<open>DecodeHeader\<close> reads twelve bytes behind the pointer. \<open>None\<close> is the read past the end
  of a shorter buffer, which C++ leaves undefined.
\<close>

definition DecodeHeader :: "endian \<Rightarrow> bytes \<Rightarrow> PacketHeader option" where
  "DecodeHeader h buffer =
     (if length buffer < HEADER_LEN then None
      else Some \<lparr>ph_length = ntohl h (mem_load h (take 4 buffer)),
                 ph_version = ntohs h (mem_load h (take 2 (drop 4 buffer))),
                 ph_cmd_id = ntohs h (mem_load h (take 2 (drop 6 buffer))),
                 ph_seq_id = ntohl h (mem_load h (take 4 (drop 8 buffer)))\<rparr>)"

text \<open>The layout the protocol document gives: four fields in network byte order.\<close>

definition header_layout :: "PacketHeader \<Rightarrow> bytes" where
  "header_layout pkt =
     be_bytes 4 (ph_length pkt) @ be_bytes 2 (ph_version pkt) @
     be_bytes 2 (ph_cmd_id pkt) @ be_bytes 4 (ph_seq_id pkt)"

lemma length_header_layout [simp]: "length (header_layout pkt) = 12"
  by (simp add: header_layout_def)

lemma EncodeHeader_eq:
  assumes "12 \<le> length buffer"
  shows "EncodeHeader h pkt buffer = header_layout pkt @ drop 12 buffer"
  using assms
  by (simp add: EncodeHeader_def Let_def memcpy_at_def header_layout_def mem_bytes_hton
      take_append drop_append)

lemma DecodeHeader_eq:
  assumes "12 \<le> length buffer"
  shows "DecodeHeader h buffer =
    Some \<lparr>ph_length = be_load (take 4 buffer), ph_version = be_load (take 2 (drop 4 buffer)),
          ph_cmd_id = be_load (take 2 (drop 6 buffer)), ph_seq_id = be_load (take 4 (drop 8 buffer))\<rparr>"
  using assms by (simp add: DecodeHeader_def HEADER_LEN_def hton_mem_load_len)

lemma DecodeHeader_layout:
  "DecodeHeader h (header_layout pkt @ body) = Some pkt"
  by (simp add: DecodeHeader_eq header_layout_def take_append drop_append be_load_be_bytes)

lemma layout_DecodeHeader:
  assumes "length buffer = 12" and "DecodeHeader h buffer = Some pkt"
  shows "header_layout pkt = buffer"
proof -
  have len: "length (take 2 (drop k buffer)) = 2" if "k \<le> 10" for k
    using assms(1) that by simp
  have len4: "length (take 4 (drop k buffer)) = 4" if "k \<le> 8" for k
    using assms(1) that by simp
  have be2: "be_bytes 2 (be_load (take 2 (drop k buffer)) :: u16) = take 2 (drop k buffer)"
    if "k \<le> 10" for k
    using be_bytes_be_load [of "take 2 (drop k buffer)", where 'a = 16] len [OF that] by simp
  have be4: "be_bytes 4 (be_load (take 4 (drop k buffer)) :: u32) = take 4 (drop k buffer)"
    if "k \<le> 8" for k
    using be_bytes_be_load [of "take 4 (drop k buffer)", where 'a = 32] len4 [OF that] by simp
  have parts: "take 4 buffer @ take 2 (drop 4 buffer) @ take 2 (drop 6 buffer) @
      take 4 (drop 8 buffer) = buffer"
    using assms(1) append_take_drop_id [of 4 buffer]
      append_take_drop_id [of 2 "drop 4 buffer"] append_take_drop_id [of 2 "drop 6 buffer"]
    by (simp add: add.commute)
  show ?thesis
    using assms be2 [of 4] be2 [of 6] be4 [of 8] be4 [of 0] parts
    by (auto simp: DecodeHeader_eq header_layout_def)
qed

section \<open>Framing\<close>

text \<open>
  What a client of the wire format relies on: a header of fixed size that decodes to itself
  whatever follows it. A packet is such a header with its body behind it.
\<close>

locale wire_codec =
  fixes enc :: "'h \<Rightarrow> bytes" and dec :: "bytes \<Rightarrow> 'h option" and hlen :: nat
  assumes enc_length: "length (enc x) = hlen"
    and dec_enc: "dec (enc x @ rest) = Some x"
begin

lemma frame_header: "dec (enc x @ body) = Some x \<and> drop hlen (enc x @ body) = body"
  by (simp add: dec_enc enc_length)

lemma frame_inject: "enc x @ body = enc y @ body' \<Longrightarrow> x = y \<and> body = body'"
  by (metis dec_enc enc_length append_eq_append_conv option.inject)

text \<open>
  When the length field counts header and body, a stream of packets can be cut in one way
  only: the field solves the problem of packets that arrive stuck together.
\<close>

lemma stream_inject:
  fixes total :: "'h \<Rightarrow> nat"
  assumes "concat (map (\<lambda>(x, b). enc x @ b) xs) = concat (map (\<lambda>(x, b). enc x @ b) ys)"
    and "\<And>x b. (x, b) \<in> set xs \<union> set ys \<Longrightarrow> total x = hlen + length b"
    and "0 < hlen"
  shows "xs = ys"
  using assms(1,2)
proof (induction xs arbitrary: ys)
  case Nil
  then show ?case using enc_length \<open>0 < hlen\<close> by (cases ys) (fastforce)+
next
  case (Cons p xs)
  obtain x b where p: "p = (x, b)" by (cases p)
  obtain y c ys' where ys: "ys = (y, c) # ys'"
    using Cons.prems(1) enc_length [of x] \<open>0 < hlen\<close> p by (cases ys) fastforce+
  have eq: "enc x @ (b @ concat (map (\<lambda>(x, b). enc x @ b) xs)) =
      enc y @ (c @ concat (map (\<lambda>(x, b). enc x @ b) ys'))"
    using Cons.prems(1) by (simp add: p ys)
  from frame_inject [OF eq] have xy: "x = y"
    and rest: "b @ concat (map (\<lambda>(x, b). enc x @ b) xs) = c @ concat (map (\<lambda>(x, b). enc x @ b) ys')"
    by auto
  have "length b = length c"
    using Cons.prems(2) [of x b] Cons.prems(2) [of y c] xy by (simp add: p ys)
  with rest have "b = c" and "concat (map (\<lambda>(x, b). enc x @ b) xs) =
      concat (map (\<lambda>(x, b). enc x @ b) ys')" by auto
  with Cons.IH [of ys'] Cons.prems(2) xy show ?case by (auto simp: p ys)
qed

end

definition encode_packet_header :: "endian \<Rightarrow> PacketHeader \<Rightarrow> bytes" where
  "encode_packet_header h pkt = EncodeHeader h pkt (replicate HEADER_LEN 0)"

lemma encode_packet_header_eq: "encode_packet_header h pkt = header_layout pkt"
  by (simp add: encode_packet_header_def EncodeHeader_eq HEADER_LEN_def)

interpretation pkt: wire_codec "encode_packet_header h" "DecodeHeader h" HEADER_LEN for h
  by unfold_locales (simp_all add: encode_packet_header_eq DecodeHeader_layout HEADER_LEN_def)

section \<open>The push packet of the logic server\<close>

definition PackPushMsg :: "endian \<Rightarrow> (MsgPush \<Rightarrow> bytes) \<Rightarrow> ChatMsg \<Rightarrow> bytes" where
  "PackPushMsg h SerializeToString chat_msg =
     (let push_pkg = \<lparr>mp_msg = chat_msg\<rparr>;
          body_bytes = SerializeToString push_pkg;
          total_len = (word_of_nat (12 + length body_bytes) :: u32);
          version = (1 :: u16);
          cmd_id = (0x1005 :: u16);
          seq_id = (0 :: u32);
          net_len = htonl h total_len;
          net_ver = htons h version;
          net_cmd = htons h cmd_id;
          net_seq = htonl h seq_id
      in mem_bytes h 4 net_len @ mem_bytes h 2 net_ver @ mem_bytes h 2 net_cmd @
         mem_bytes h 4 net_seq @ body_bytes)"

definition push_header :: "nat \<Rightarrow> PacketHeader" where
  "push_header n =
     \<lparr>ph_length = word_of_nat (12 + n), ph_version = 1, ph_cmd_id = 0x1005, ph_seq_id = 0\<rparr>"

lemma PackPushMsg_eq:
  "PackPushMsg h ser m =
     encode_packet_header h (push_header (length (ser \<lparr>mp_msg = m\<rparr>))) @ ser \<lparr>mp_msg = m\<rparr>"
  by (simp add: PackPushMsg_def Let_def mem_bytes_hton encode_packet_header_eq header_layout_def
      push_header_def)

lemma unat_length_field: "n < 2 ^ 32 - 12 \<Longrightarrow> unat (word_of_nat (12 + n) :: u32) = 12 + n"
  using take_bit_nat_eq_self [of "12 + n" 32] by (simp only: unsigned_of_nat) simp

section \<open>Properties\<close>

text \<open>
  C9: whatever the byte order of the two hosts, \<open>EncodeHeader\<close> fills a twelve byte buffer
  (whatever it held before) with the four fields in network byte order, and \<open>DecodeHeader\<close>
  on the other host reads back the same header from any message that starts with it.
\<close>

theorem header_roundtrip:
  assumes "length buffer = HEADER_LEN"
  shows "EncodeHeader h pkt buffer = header_layout pkt \<and>
    DecodeHeader h' (EncodeHeader h pkt buffer @ body) = Some pkt"
  using assms by (simp add: EncodeHeader_eq DecodeHeader_layout HEADER_LEN_def)

theorem header_roundtrip_witness:
  "EncodeHeader Little \<lparr>ph_length = 300, ph_version = 1, ph_cmd_id = 0x1001, ph_seq_id = 7\<rparr>
     (replicate 12 0xff) = [0, 0, 1, 44, 0, 1, 16, 1, 0, 0, 0, 7]"
proof -
  let ?p = "\<lparr>ph_length = 300, ph_version = 1, ph_cmd_id = 0x1001, ph_seq_id = 7\<rparr>"
  have "EncodeHeader Little ?p (replicate 12 0xff) = header_layout ?p"
    using header_roundtrip [of "replicate 12 0xff" Little ?p Big "[]"]
    by (simp add: HEADER_LEN_def)
  then show ?thesis by (simp add: header_layout_def be_bytes_def)
qed

text \<open>
  Decoding loses nothing: a twelve byte buffer is the encoding of the header it decodes to,
  so header values and twelve byte strings correspond one to one.
\<close>

theorem header_decode_encode:
  assumes "length buffer = HEADER_LEN" and "length buffer' = HEADER_LEN"
    and "DecodeHeader h buffer = Some pkt"
  shows "EncodeHeader h' pkt buffer' = buffer"
  using assms layout_DecodeHeader [of buffer h pkt]
  by (simp add: EncodeHeader_eq HEADER_LEN_def)

theorem header_decode_encode_witness:
  "\<exists>pkt. DecodeHeader Little [0, 0, 0, 12, 0, 1, 16, 6, 1, 2, 3, 4] = Some pkt \<and>
     EncodeHeader Big pkt (replicate 12 9) = [0, 0, 0, 12, 0, 1, 16, 6, 1, 2, 3, 4]"
proof -
  let ?b = "[0, 0, 0, 12, 0, 1, 16, 6, 1, 2, 3, 4] :: bytes"
  obtain pkt where pkt: "DecodeHeader Little ?b = Some pkt"
    by (simp add: DecodeHeader_def HEADER_LEN_def)
  with header_decode_encode [of ?b "replicate 12 9" Little pkt Big] show ?thesis
    by (auto simp: HEADER_LEN_def)
qed

text \<open>
  C37: the packet that \<open>PackPushMsg\<close> builds by hand is the one the gateway's encoder would
  build: it starts with the header of command 0x1005, version 1, sequence 0, whose length
  field is the size of the whole packet while the body stays below 4 GiB, and the serialized
  message follows unchanged.
\<close>

theorem PackPushMsg_frame:
  assumes "length (ser \<lparr>mp_msg = m\<rparr>) < 2 ^ 32 - 12"
  shows "\<exists>pkt. DecodeHeader h' (PackPushMsg h ser m) = Some pkt \<and>
    unat (ph_length pkt) = length (PackPushMsg h ser m) \<and>
    ph_version pkt = 1 \<and> ph_cmd_id pkt = 0x1005 \<and> ph_seq_id pkt = 0 \<and>
    drop HEADER_LEN (PackPushMsg h ser m) = ser \<lparr>mp_msg = m\<rparr>"
proof -
  let ?n = "length (ser \<lparr>mp_msg = m\<rparr>)"
  have "DecodeHeader h' (PackPushMsg h ser m) = Some (push_header ?n)"
    by (simp add: PackPushMsg_eq encode_packet_header_eq DecodeHeader_layout)
  moreover have "unat (ph_length (push_header ?n)) = length (PackPushMsg h ser m)"
    using unat_length_field [OF assms]
    by (simp add: push_header_def PackPushMsg_eq encode_packet_header_eq)
  moreover have "drop HEADER_LEN (PackPushMsg h ser m) = ser \<lparr>mp_msg = m\<rparr>"
    unfolding PackPushMsg_eq using pkt.frame_header by blast
  ultimately show ?thesis by (simp add: push_header_def)
qed

theorem PackPushMsg_frame_witness:
  "\<exists>pkt. DecodeHeader Big (PackPushMsg Little (\<lambda>p. map of_char (cm_content (mp_msg p)))
       (ChatMsg_default\<lparr>cm_content := ''hi''\<rparr>)) = Some pkt \<and> unat (ph_length pkt) = 14"
proof -
  let ?ser = "\<lambda>p. map of_char (cm_content (mp_msg p)) :: bytes"
  let ?m = "ChatMsg_default\<lparr>cm_content := ''hi''\<rparr>"
  have small: "length (?ser \<lparr>mp_msg = ?m\<rparr>) < 2 ^ 32 - 12" by simp
  have "length (PackPushMsg Little ?ser ?m) = 14"
    by (simp add: PackPushMsg_def Let_def)
  with PackPushMsg_frame [where ser = ?ser and m = ?m and h' = Big and h = Little] small show ?thesis by auto
qed

text \<open>
  Two different sequences of packets whose length fields count header and body never give
  the same byte stream, which is what the length field of the protocol is for.
\<close>

theorem packet_stream_unique:
  assumes "\<And>p b. (p, b) \<in> set xs \<union> set ys \<Longrightarrow> unat (ph_length p) = HEADER_LEN + length b"
    and "xs \<noteq> ys"
  shows "concat (map (\<lambda>(p, b). encode_packet_header h p @ b) xs) \<noteq>
    concat (map (\<lambda>(p, b). encode_packet_header h p @ b) ys)"
proof
  assume "concat (map (\<lambda>(p, b). encode_packet_header h p @ b) xs) =
    concat (map (\<lambda>(p, b). encode_packet_header h p @ b) ys)"
  then have "xs = ys" by (rule pkt.stream_inject [OF _ assms(1)]) (auto simp: HEADER_LEN_def)
  with assms(2) show False by contradiction
qed

theorem packet_stream_unique_witness:
  "concat (map (\<lambda>(p, b). encode_packet_header Little p @ b) [(push_header 1, [42]), (push_header 0, [])]) \<noteq>
   concat (map (\<lambda>(p, b). encode_packet_header Little p @ b) [(push_header 0, []), (push_header 1, [42])])"
  by (rule packet_stream_unique) (auto simp: push_header_def HEADER_LEN_def)

end
