(* ===== verification/Keyed_Store.thy ===== *)
theory Keyed_Store
  imports Prelude
begin

text \<open>
  The contract of the keyed tables that the servers keep in memory: the gateway's
  \<open>sessions_\<close> and the storage client's \<open>object_fid_map_\<close>. Both are an
  \<open>std::unordered_map\<close> behind a mutex; the operations that take the lock are the
  parameters. \<open>keyed_store\<close> is interpreted on the storage client, its extension with a
  delete operation on the gateway's session manager.
\<close>

locale keyed_store =
  fixes put :: "'k \<Rightarrow> 'v \<Rightarrow> 's \<Rightarrow> 's" and look :: "'s \<Rightarrow> 'k \<Rightarrow> 'v option"
  assumes look_put: "look (put k v s) k' = (if k' = k then Some v else look s k')"
begin

lemma look_put_same: "look (put k v s) k = Some v"
  by (simp add: look_put)

lemma look_put_other: "k' \<noteq> k \<Longrightarrow> look (put k v s) k' = look s k'"
  by (simp add: look_put)

lemma look_put_put: "look (put k v (put k u s)) = look (put k v s)"
  by (rule ext) (simp add: look_put)

lemma look_puts:
  "look (fold (\<lambda>(k, v). put k v) kvs s) k' =
     (case map_of (rev kvs) k' of Some v \<Rightarrow> Some v | None \<Rightarrow> look s k')"
  by (induction kvs arbitrary: s) (auto simp: look_put map_add_def split: option.splits)

end

locale keyed_store_del = keyed_store +
  fixes del :: "'k \<Rightarrow> 's \<Rightarrow> 's"
  assumes look_del: "look (del k s) k' = (if k' = k then None else look s k')"
begin

lemma look_del_same: "look (del k s) k = None"
  by (simp add: look_del)

lemma look_del_Some: "look (del k s) k' = Some v \<longleftrightarrow> k' \<noteq> k \<and> look s k' = Some v"
  by (simp add: look_del)

lemma look_del_put: "look (del k (put k v s)) = look (del k s)"
  by (rule ext) (simp add: look_del look_put)

end

end
