(* ===== verification/Gateway.thy ===== *)
theory Gateway
  imports Packet Im_Proto Keyed_Store
begin

text \<open>
  \<open>server/gateway/main.cc\<close> without its HTTP part: the session table, the gRPC service that
  pushes packets, and the WebSocket behaviour (open, message, close). The state \<open>gateway\<close>
  holds the sockets that are open with the user number of their \<open>PerSocketData\<close>, the session
  table with its raw pointers to sockets, the frames that were sent, and the world of the
  logic server behind the gRPC stub.

  The generated message classes and the stub are parameters. \<open>None\<close> as the result of a step is
  undefined behaviour of C++: reading outside the message, or using a socket that has been
  destroyed. Log lines are not modelled.
\<close>

section \<open>State\<close>

type_synonym ws = nat

datatype opcode = OP_TEXT | OP_BINARY

record 'l gateway =
  gw_sockets :: "ws \<rightharpoonup> i64"
  gw_sessions :: "i64 \<rightharpoonup> ws"
  gw_sent :: "(ws \<times> bytes) list"
  gw_logic :: 'l

text \<open>
  A call of the stub answers the reply when its status is OK. \<open>ge_parse_*\<close> is
  \<open>ParseFromArray\<close> on the bytes it may read, \<open>ge_ser_*\<close> is \<open>SerializeToString\<close>.
\<close>

record 'l gateway_env =
  ge_endian :: endian
  ge_parse_login :: "bytes \<Rightarrow> LoginReq option"
  ge_parse_send :: "bytes \<Rightarrow> MsgSendReq option"
  ge_parse_sync :: "bytes \<Rightarrow> SyncMsgReq option"
  ge_parse_upload :: "bytes \<Rightarrow> GetUploadUrlReq option"
  ge_ser_login :: "LoginRes \<Rightarrow> bytes"
  ge_ser_send :: "MsgSendRes \<Rightarrow> bytes"
  ge_ser_sync :: "SyncMsgRes \<Rightarrow> bytes"
  ge_ser_upload :: "GetUploadUrlRes \<Rightarrow> bytes"
  ge_login :: "LoginReq \<Rightarrow> 'l \<Rightarrow> LoginRes option \<times> 'l"
  ge_send :: "MsgSendReq \<Rightarrow> 'l \<Rightarrow> MsgSendRes option \<times> 'l"
  ge_sync :: "SyncMsgReq \<Rightarrow> 'l \<Rightarrow> SyncMsgRes option \<times> 'l"
  ge_upload :: "GetUploadUrlReq \<Rightarrow> 'l \<Rightarrow> GetUploadUrlRes option \<times> 'l"

definition gateway_initial :: "'l \<Rightarrow> 'l gateway" where
  "gateway_initial l =
     \<lparr>gw_sockets = Map.empty, gw_sessions = Map.empty, gw_sent = [], gw_logic = l\<rparr>"

section \<open>Sessions\<close>

definition AddSession :: "i64 \<Rightarrow> ws \<Rightarrow> 'l gateway \<Rightarrow> 'l gateway" where
  "AddSession uid s G = G\<lparr>gw_sessions := (gw_sessions G)(uid \<mapsto> s)\<rparr>"

definition RemoveSession :: "i64 \<Rightarrow> 'l gateway \<Rightarrow> 'l gateway" where
  "RemoveSession uid G =
     (if gw_sessions G uid \<noteq> None then G\<lparr>gw_sessions := (gw_sessions G)(uid := None)\<rparr> else G)"

definition find_session :: "'l gateway \<Rightarrow> i64 \<Rightarrow> ws option" where
  "find_session G uid = gw_sessions G uid"

interpretation sessions: keyed_store_del AddSession find_session RemoveSession
  by unfold_locales (auto simp: AddSession_def find_session_def RemoveSession_def)

text \<open>\<open>ws->send\<close> and \<open>ws->getUserData()\<close> on a socket that is still open.\<close>

definition ws_send :: "ws \<Rightarrow> bytes \<Rightarrow> 'l gateway \<Rightarrow> 'l gateway option" where
  "ws_send s frame G =
     (if s \<in> dom (gw_sockets G) then Some (G\<lparr>gw_sent := gw_sent G @ [(s, frame)]\<rparr>) else None)"

definition PushToUser :: "i64 \<Rightarrow> bytes \<Rightarrow> 'l gateway \<Rightarrow> (bool \<times> 'l gateway) option" where
  "PushToUser uid frame G =
     (case find_session G uid of
        Some s \<Rightarrow> map_option (\<lambda>G'. (True, G')) (ws_send s frame G)
      | None \<Rightarrow> Some (False, G))"

definition PushMsg :: "PushMsgReq \<Rightarrow> 'l gateway \<Rightarrow> (PushMsgRes \<times> 'l gateway) option" where
  "PushMsg request G =
     (case PushToUser (psq_to_uid request) (psq_content request) G of
        None \<Rightarrow> None
      | Some (True, G') \<Rightarrow> Some (PushMsgRes_default\<lparr>psr_err_code := 0\<rparr>, G')
      | Some (False, G') \<Rightarrow>
          Some (PushMsgRes_default\<lparr>psr_err_code := -1, psr_err_msg := ''User not found locally''\<rparr>, G'))"

section \<open>Parsing a message\<close>

text \<open>
  \<open>ParseFromArray(buffer + HEADER_LEN, size)\<close> is given \<open>sz\<close> bytes behind the header. The
  argument is an \<open>int\<close>; a negative one and one that reaches behind the message break the
  precondition of the call and count as undefined. The parser reads front to back and may stop
  at a malformed byte before it leaves the message, so \<open>None\<close> over-approximates the reads.
\<close>

definition body_bytes :: "bytes \<Rightarrow> i32 \<Rightarrow> bytes option" where
  "body_bytes message sz =
     (if sz <s 0 \<or> length message < HEADER_LEN + nat (sint sz) then None
      else Some (take (nat (sint sz)) (drop HEADER_LEN message)))"

text \<open>
  The size that the login branch passes: \<open>header.length - HEADER_LEN\<close>, computed in \<open>size_t\<close>
  and converted to \<open>int\<close>. The other branches pass \<open>message.length() - HEADER_LEN\<close> after
  comparing \<open>message.length()\<close> with \<open>HEADER_LEN + (header.length - HEADER_LEN)\<close>.
\<close>

definition login_size :: "PacketHeader \<Rightarrow> i32" where
  "login_size header = ucast ((ucast (ph_length header) :: u64) - word_of_nat HEADER_LEN)"

definition message_size :: "bytes \<Rightarrow> i32" where
  "message_size message = ucast ((word_of_nat (length message) :: u64) - word_of_nat HEADER_LEN)"

definition length_ok :: "PacketHeader \<Rightarrow> bytes \<Rightarrow> bool" where
  "length_ok header message \<longleftrightarrow>
     word_of_nat HEADER_LEN + ((ucast (ph_length header) :: u64) - word_of_nat HEADER_LEN)
       \<le> word_of_nat (length message)"

text \<open>The reply: a header that echoes version and sequence number, and the body.\<close>

definition reply_header :: "PacketHeader \<Rightarrow> u16 \<Rightarrow> bytes \<Rightarrow> PacketHeader" where
  "reply_header header cmd body =
     \<lparr>ph_length = word_of_nat (HEADER_LEN + length body), ph_version = ph_version header,
      ph_cmd_id = cmd, ph_seq_id = ph_seq_id header\<rparr>"

definition send_reply ::
  "'l gateway_env \<Rightarrow> ws \<Rightarrow> PacketHeader \<Rightarrow> u16 \<Rightarrow> bytes \<Rightarrow> 'l gateway \<Rightarrow> 'l gateway option" where
  "send_reply env s header cmd body G =
     ws_send s (encode_packet_header (ge_endian env) (reply_header header cmd body) @ body) G"

section \<open>The WebSocket behaviour\<close>

definition ws_open :: "ws \<Rightarrow> 'l gateway \<Rightarrow> 'l gateway" where
  "ws_open s G = G\<lparr>gw_sockets := (gw_sockets G)(s \<mapsto> 0)\<rparr>"

text \<open>The user number of an open socket.\<close>

definition uid_of :: "'l gateway \<Rightarrow> ws \<Rightarrow> i64" where
  "uid_of G s = (case gw_sockets G s of Some u \<Rightarrow> u | None \<Rightarrow> 0)"

definition on_login :: "'l gateway_env \<Rightarrow> ws \<Rightarrow> PacketHeader \<Rightarrow> bytes \<Rightarrow> 'l gateway \<Rightarrow> 'l gateway option" where
  "on_login env s header message G =
     (case body_bytes message (login_size header) of
        None \<Rightarrow> None
      | Some bytes \<Rightarrow>
          (case ge_parse_login env bytes of
             None \<Rightarrow> Some G
           | Some req \<Rightarrow>
               (case ge_login env req (gw_logic G) of
                  (None, l) \<Rightarrow> Some (G\<lparr>gw_logic := l\<rparr>)
                | (Some res, l) \<Rightarrow>
                    let G1 = G\<lparr>gw_logic := l\<rparr>;
                        G2 = (if lr_err_code res = ERR_SUCCESS
                              then AddSession (lq_uid req) s
                                     (G1\<lparr>gw_sockets := (gw_sockets G1)(s \<mapsto> lq_uid req)\<rparr>)
                              else G1)
                    in send_reply env s header 0x1002 (ge_ser_login env res) G2)))"

definition on_send :: "'l gateway_env \<Rightarrow> ws \<Rightarrow> PacketHeader \<Rightarrow> bytes \<Rightarrow> 'l gateway \<Rightarrow> 'l gateway option" where
  "on_send env s header message G =
     (if \<not> length_ok header message then Some G
      else case body_bytes message (message_size message) of
        None \<Rightarrow> None
      | Some bytes \<Rightarrow>
          (case ge_parse_send env bytes of
             None \<Rightarrow> Some G
           | Some req \<Rightarrow>
               let current_id = uid_of G s in
               if current_id = 0 then Some G
               else
                 let req = req\<lparr>sq_msg := (sq_msg req)\<lparr>cm_from_uid := current_id\<rparr>\<rparr> in
                 (case ge_send env req (gw_logic G) of
                    (None, l) \<Rightarrow> Some (G\<lparr>gw_logic := l\<rparr>)
                  | (Some res, l) \<Rightarrow>
                      send_reply env s header 0x1004 (ge_ser_send env res) (G\<lparr>gw_logic := l\<rparr>))))"

definition on_sync :: "'l gateway_env \<Rightarrow> ws \<Rightarrow> PacketHeader \<Rightarrow> bytes \<Rightarrow> 'l gateway \<Rightarrow> 'l gateway option" where
  "on_sync env s header message G =
     (if \<not> length_ok header message then Some G
      else case body_bytes message (message_size message) of
        None \<Rightarrow> None
      | Some bytes \<Rightarrow>
          (case ge_parse_sync env bytes of
             None \<Rightarrow> Some G
           | Some req \<Rightarrow>
               (case ge_sync env (req\<lparr>yq_uid := uid_of G s\<rparr>) (gw_logic G) of
                  (None, l) \<Rightarrow> Some (G\<lparr>gw_logic := l\<rparr>)
                | (Some res, l) \<Rightarrow>
                    send_reply env s header 0x1007 (ge_ser_sync env res) (G\<lparr>gw_logic := l\<rparr>))))"

definition on_upload :: "'l gateway_env \<Rightarrow> ws \<Rightarrow> PacketHeader \<Rightarrow> bytes \<Rightarrow> 'l gateway \<Rightarrow> 'l gateway option" where
  "on_upload env s header message G =
     (if \<not> length_ok header message then Some G
      else case body_bytes message (message_size message) of
        None \<Rightarrow> None
      | Some bytes \<Rightarrow>
          (case ge_parse_upload env bytes of
             None \<Rightarrow> Some G
           | Some req \<Rightarrow>
               (case ge_upload env (req\<lparr>uq_uid := uid_of G s\<rparr>) (gw_logic G) of
                  (None, l) \<Rightarrow> Some (G\<lparr>gw_logic := l\<rparr>)
                | (Some res, l) \<Rightarrow>
                    send_reply env s header 0x1009 (ge_ser_upload env res) (G\<lparr>gw_logic := l\<rparr>))))"

definition ws_message ::
  "'l gateway_env \<Rightarrow> ws \<Rightarrow> bytes \<Rightarrow> opcode \<Rightarrow> 'l gateway \<Rightarrow> 'l gateway option" where
  "ws_message env s message opCode G =
     (if opCode \<noteq> OP_BINARY then Some G
      else if length message < HEADER_LEN then Some G
      else case DecodeHeader (ge_endian env) message of
        None \<Rightarrow> None
      | Some header \<Rightarrow>
          if ph_cmd_id header = 0x1001 then on_login env s header message G
          else if ph_cmd_id header = 0x1003 then on_send env s header message G
          else if ph_cmd_id header = 0x1006 then on_sync env s header message G
          else if ph_cmd_id header = 0x1008 then on_upload env s header message G
          else Some G)"

text \<open>The handler runs before the socket and its user data are destroyed.\<close>

definition ws_close :: "ws \<Rightarrow> 'l gateway \<Rightarrow> 'l gateway" where
  "ws_close s G =
     (let G1 = RemoveSession (uid_of G s) G in G1\<lparr>gw_sockets := (gw_sockets G1)(s := None)\<rparr>)"

section \<open>Sizes\<close>

text \<open>
  The 64-bit comparison of the code is the comparison of the length field with the length of
  the message: adding and subtracting \<open>HEADER_LEN\<close> cancel, also when the subtraction wraps.
\<close>

lemma unat_ucast_64: "unat (ucast (x :: u32) :: u64) = unat x"
  by transfer simp

lemma length_ok_iff:
  assumes "length message < 2 ^ 64"
  shows "length_ok header message \<longleftrightarrow> unat (ph_length header) \<le> length message"
proof -
  have "length_ok header message \<longleftrightarrow> (ucast (ph_length header) :: u64) \<le> word_of_nat (length message)"
    by (simp add: length_ok_def)
  also have "\<dots> \<longleftrightarrow> unat (ph_length header) \<le> length message"
    using assms take_bit_nat_eq_self [of "length message" 64]
    by (simp add: word_le_nat_alt unat_ucast_64 unsigned_of_nat)
  finally show ?thesis .
qed

lemma message_size_eq:
  assumes "HEADER_LEN \<le> length message"
  shows "message_size message = word_of_nat (length message - HEADER_LEN)"
proof -
  have "message_size message = ucast (word_of_nat (length message - HEADER_LEN) :: u64)"
    using assms by (simp add: message_size_def of_nat_diff)
  also have "\<dots> = word_of_nat (length message - HEADER_LEN)"
    by transfer simp
  finally show ?thesis .
qed

lemma body_bytes_message:
  assumes "HEADER_LEN \<le> length message" and "length message < 2 ^ 31"
  shows "body_bytes message (message_size message) = Some (drop HEADER_LEN message)"
proof -
  have "sint (message_size message) = int (length message - HEADER_LEN)"
    using assms(2) by (simp add: message_size_eq [OF assms(1)] signed_of_nat signed_take_bit_int_eq_self)
  then show ?thesis using assms(1) by (simp add: body_bytes_def word_sless_alt)
qed

text \<open>What the login branch reads, over all values of the length field.\<close>

lemma ucast_minus_12: "ucast ((ucast (x :: u32) :: u64) - 12) = (x - 12 :: i32)"
  by transfer (simp add: take_bit_eq_mod mod_mod_cancel mod_diff_left_eq)

lemma login_size_eq: "login_size header = ph_length header - 12"
  by (simp add: login_size_def HEADER_LEN_def ucast_minus_12)

lemma mod_once: "(m :: int) \<le> k \<Longrightarrow> k < 2 * m \<Longrightarrow> k mod m = k - m"
  by (metis add.commute add_diff_cancel_left' diff_add_cancel diff_ge_0_iff_ge diff_less_eq
      mod_add_self1 mod_pos_pos_trivial mult_2)

lemma sint_minus_12:
  "sint (x - 12 :: i32) = (int (unat x) - 12 + 2 ^ 31) mod 2 ^ 32 - 2 ^ 31"
proof -
  have "x - 12 = word_of_int (int (unat x) - 12)" by simp
  then show ?thesis
    by (simp only: signed_of_int) (simp add: signed_take_bit_eq_take_bit_shift take_bit_eq_mod)
qed

lemma sint_minus_12_cases:
  "sint (x - 12 :: i32) =
     (if int (unat x) < 2 ^ 31 + 12 then int (unat x) - 12 else int (unat x) - 12 - 2 ^ 32)"
proof (cases "int (unat x) < 2 ^ 31 + 12")
  case True
  then have "(int (unat x) - 12 + 2 ^ 31) mod 2 ^ 32 = int (unat x) - 12 + 2 ^ 31"
    by (intro mod_pos_pos_trivial) simp_all
  with True show ?thesis by (simp add: sint_minus_12)
next
  case False
  have "int (unat x) < 2 ^ 32" using unsigned_less [of x, where ?'a = int] by simp
  with False have "(int (unat x) - 12 + 2 ^ 31) mod 2 ^ 32 = int (unat x) - 12 + 2 ^ 31 - 2 ^ 32"
    by (intro mod_once) simp_all
  with False show ?thesis by (simp add: sint_minus_12)
qed

lemma body_bytes_login:
  assumes "length message < 2 ^ 31"
  shows "body_bytes message (login_size header) =
    (if HEADER_LEN \<le> unat (ph_length header) \<and> unat (ph_length header) \<le> length message
     then Some (take (unat (ph_length header) - HEADER_LEN) (drop HEADER_LEN message)) else None)"
proof -
  define n where "n = unat (ph_length header)"
  have n: "int n < 2 ^ 32" using unsigned_less [of "ph_length header", where ?'a = int] by (simp add: n_def)
  note s = sint_minus_12_cases [of "ph_length header", folded n_def]
  consider "n < 12" | "12 \<le> n" "int n < 2 ^ 31 + 12" | "2 ^ 31 + 12 \<le> int n" by linarith
  then show ?thesis
  proof cases
    case 1
    then have small: "int n < 2 ^ 31 + 12" by simp
    have "sint (login_size header) < 0"
      using 1 unfolding login_size_eq s if_P [OF small] by linarith
    with 1 show ?thesis by (simp add: body_bytes_def word_sless_alt HEADER_LEN_def n_def)
  next
    case 2
    then have "sint (login_size header) = int (n - 12)"
      unfolding login_size_eq s if_P [OF 2(2)] by linarith
    moreover from this have "nat (sint (login_size header)) = n - 12" by (simp only: nat_int)
    ultimately have "body_bytes message (login_size header) =
        (if HEADER_LEN \<le> n \<and> n \<le> length message then Some (take (n - HEADER_LEN) (drop HEADER_LEN message))
         else None)"
      using 2(1) by (simp add: body_bytes_def word_sless_alt HEADER_LEN_def)
    then show ?thesis by (simp only: n_def)
  next
    case 3
    then have big: "\<not> int n < 2 ^ 31 + 12" by linarith
    have "sint (login_size header) < 0"
      using n unfolding login_size_eq s if_not_P [OF big] by linarith
    moreover have "\<not> n \<le> length message" using 3 assms by simp
    ultimately show ?thesis by (simp add: body_bytes_def word_sless_alt n_def)
  qed
qed

end
