(* ===== verification/Gateway_Spec.thy ===== *)
theory Gateway_Spec
  imports Gateway
begin

text \<open>
  What the gateway guarantees to its clients and to the logic server: which messages have an
  effect, what a reply looks like, under which number a request is forwarded, and when the
  session table is sound.
\<close>

section \<open>A small instance\<close>

text \<open>
  An instance for the witnesses: the first byte of a body is a user number, the logic server
  keeps the numbers under which it was called, and refuses the login of user 0.
\<close>

definition demo_env :: "i64 list gateway_env" where
  "demo_env =
     \<lparr>ge_endian = Little,
      ge_parse_login = (\<lambda>b. case b of [] \<Rightarrow> None
        | x # _ \<Rightarrow> Some \<lparr>lq_uid = ucast x, lq_token = [], lq_device_id = [], lq_last_msg_id = 0\<rparr>),
      ge_parse_send = (\<lambda>b. case b of [] \<Rightarrow> None
        | x # _ \<Rightarrow> Some \<lparr>sq_msg = ChatMsg_default\<lparr>cm_from_uid := ucast x\<rparr>\<rparr>),
      ge_parse_sync = (\<lambda>b. Some \<lparr>yq_uid = 0, yq_last_msg_id = 0\<rparr>),
      ge_parse_upload = (\<lambda>b. None),
      ge_ser_login = (\<lambda>_. []), ge_ser_send = (\<lambda>_. []),
      ge_ser_sync = (\<lambda>_. []), ge_ser_upload = (\<lambda>_. []),
      ge_login = (\<lambda>req l. (Some (LoginRes_default\<lparr>lr_err_code :=
        (if lq_uid req = 0 then ERR_AUTH_FAIL else ERR_SUCCESS)\<rparr>), l @ [lq_uid req])),
      ge_send = (\<lambda>req l. (Some MsgSendRes_default, l @ [cm_from_uid (sq_msg req)])),
      ge_sync = (\<lambda>req l. (Some SyncMsgRes_default, l @ [yq_uid req])),
      ge_upload = (\<lambda>req l. (None, l))\<rparr>"

text \<open>A packet with a one byte body, and one whose length field promises more than there is.\<close>

definition demo_packet :: "u8 \<Rightarrow> u8 \<Rightarrow> bytes" where
  "demo_packet cmd b = [0, 0, 0, 13, 0, 1, 0x10, cmd, 0, 0, 0, 9, b]"

definition lying_packet :: bytes where
  "lying_packet = [0, 0, 1, 0, 0, 1, 0x10, 1, 0, 0, 0, 9]"

definition demo_header :: "u16 \<Rightarrow> PacketHeader" where
  "demo_header cmd = \<lparr>ph_length = 13, ph_version = 1, ph_cmd_id = cmd, ph_seq_id = 9\<rparr>"

text \<open>One socket that has logged in as \<open>u\<close>; the logic server has seen nothing yet.\<close>

definition demo_gateway :: "i64 \<Rightarrow> i64 list gateway" where
  "demo_gateway u =
     \<lparr>gw_sockets = [0 \<mapsto> u], gw_sessions = [u \<mapsto> 0], gw_sent = [], gw_logic = []\<rparr>"

lemma length_demo_packet [simp]: "length (demo_packet cmd b) = 13"
  by (simp add: demo_packet_def)

lemma drop_demo_packet [simp]: "drop HEADER_LEN (demo_packet cmd b) = [b]"
  by (simp add: demo_packet_def HEADER_LEN_def)

lemma DecodeHeader_demo [simp]:
  "DecodeHeader Little (demo_packet 1 b) = Some (demo_header 0x1001)"
  "DecodeHeader Little (demo_packet 3 b) = Some (demo_header 0x1003)"
  "DecodeHeader Little (demo_packet 6 b) = Some (demo_header 0x1006)"
  "DecodeHeader Little lying_packet =
     Some \<lparr>ph_length = 256, ph_version = 1, ph_cmd_id = 0x1001, ph_seq_id = 9\<rparr>"
  by (simp_all add: demo_packet_def lying_packet_def demo_header_def DecodeHeader_eq be_load_def)

lemma demo_header_simps [simp]:
  "ph_cmd_id (demo_header cmd) = cmd" "ph_seq_id (demo_header cmd) = 9"
  "ph_length (demo_header cmd) = 13"
  by (simp_all add: demo_header_def)

lemma demo_body [simp]:
  "body_bytes (demo_packet cmd b) (login_size (demo_header c)) = Some [b]"
  "body_bytes (demo_packet cmd b) (message_size (demo_packet cmd b)) = Some [b]"
  "length_ok (demo_header c) (demo_packet cmd b)"
  by (simp_all add: body_bytes_login body_bytes_message length_ok_iff HEADER_LEN_def
      drop_demo_packet [unfolded HEADER_LEN_def])

lemma demo_env_simps [simp]:
  "ge_endian demo_env = Little"
  "ge_parse_login demo_env [b] =
     Some \<lparr>lq_uid = ucast b, lq_token = [], lq_device_id = [], lq_last_msg_id = 0\<rparr>"
  "ge_parse_send demo_env [b] = Some \<lparr>sq_msg = ChatMsg_default\<lparr>cm_from_uid := ucast b\<rparr>\<rparr>"
  "ge_login demo_env req l = (Some (LoginRes_default\<lparr>lr_err_code :=
        (if lq_uid req = 0 then ERR_AUTH_FAIL else ERR_SUCCESS)\<rparr>), l @ [lq_uid req])"
  "ge_send demo_env sreq l = (Some MsgSendRes_default, l @ [cm_from_uid (sq_msg sreq)])"
  "ge_ser_login demo_env res = []" "ge_ser_send demo_env sres = []"
  by (simp_all add: demo_env_def)

lemma ucast_u8_0 [simp]: "(ucast (b :: u8) :: i64) = 0 \<longleftrightarrow> b = 0"
  by transfer simp

lemma demo_login:
  assumes "gw_sockets G s \<noteq> None" and "b \<noteq> 0"
  shows "ws_message demo_env s (demo_packet 1 b) OP_BINARY G =
    Some (G\<lparr>gw_sockets := (gw_sockets G)(s \<mapsto> ucast b), gw_sessions := (gw_sessions G)(ucast b \<mapsto> s),
      gw_sent := gw_sent G @ [(s, encode_packet_header Little (reply_header (demo_header 0x1001) 0x1002 []))],
      gw_logic := gw_logic G @ [ucast b]\<rparr>)"
  using assms
  by (simp add: ws_message_def HEADER_LEN_def on_login_def send_reply_def ws_send_def
      AddSession_def LoginRes_default_def)

lemma demo_send:
  assumes "gw_sockets G s = Some u" and "u \<noteq> 0"
  shows "ws_message demo_env s (demo_packet 3 b) OP_BINARY G =
    Some (G\<lparr>gw_sent := gw_sent G @ [(s, encode_packet_header Little (reply_header (demo_header 0x1003) 0x1004 []))],
      gw_logic := gw_logic G @ [u]\<rparr>)"
  using assms
  by (simp add: ws_message_def HEADER_LEN_def on_send_def send_reply_def ws_send_def
      uid_of_def Let_def domIff)

section \<open>One message\<close>

lemma ws_send_Some: "ws_send s f G = Some G' \<longleftrightarrow>
    s \<in> dom (gw_sockets G) \<and> G' = G\<lparr>gw_sent := gw_sent G @ [(s, f)]\<rparr>"
  by (auto simp: ws_send_def)

lemma send_reply_None: "send_reply env s h cmd body G = None \<longleftrightarrow> s \<notin> dom (gw_sockets G)"
  by (simp add: send_reply_def ws_send_def)

lemma AddSession_simps [simp]:
  "gw_sockets (AddSession u s G) = gw_sockets G" "gw_sent (AddSession u s G) = gw_sent G"
  "gw_logic (AddSession u s G) = gw_logic G"
  by (simp_all add: AddSession_def)

lemma RemoveSession_simps [simp]:
  "gw_sockets (RemoveSession u G) = gw_sockets G" "gw_sent (RemoveSession u G) = gw_sent G"
  "gw_logic (RemoveSession u G) = gw_logic G"
  by (auto simp: RemoveSession_def)

text \<open>The session table, from the laws of \<open>keyed_store_del\<close>.\<close>

lemma gw_sessions_simps [simp]:
  "gw_sessions (AddSession u s G) = (gw_sessions G)(u \<mapsto> s)"
  "gw_sessions (RemoveSession u G) = (gw_sessions G)(u := None)"
  using sessions.look_put [of u s G] sessions.look_del [of u G]
  by (simp_all add: find_session_def fun_eq_iff)

lemma send_reply_defined [simp]:
  "gw_sockets G s = Some u \<Longrightarrow> \<exists>G'. send_reply env s h cmd body G = Some G'"
  by (auto simp: send_reply_def ws_send_def)

text \<open>The commands the gateway handles, and the frame of a reply.\<close>

definition is_reply :: "endian \<Rightarrow> ws \<Rightarrow> PacketHeader \<Rightarrow> (ws \<times> bytes) list \<Rightarrow> bool" where
  "is_reply e s header new \<longleftrightarrow> (\<exists>body.
     new = [(s, encode_packet_header e (reply_header header (ph_cmd_id header + 1) body) @ body)])"

lemma send_reply_sent:
  assumes "send_reply env s h cmd body G = Some G'" and "cmd = ph_cmd_id h + 1"
  shows "\<exists>new. gw_sent G' = gw_sent G @ new \<and> is_reply (ge_endian env) s h new"
  using assms by (auto simp: send_reply_def ws_send_Some is_reply_def)

lemmas branch_defs = on_send_def on_sync_def on_upload_def

lemma branch_sent:
  "on_login env s h m G = Some G' \<Longrightarrow> ph_cmd_id h = 0x1001 \<Longrightarrow>
     \<exists>new. gw_sent G' = gw_sent G @ new \<and> (new = [] \<or> is_reply (ge_endian env) s h new)"
  "on_send env s h m G = Some G' \<Longrightarrow> ph_cmd_id h = 0x1003 \<Longrightarrow>
     \<exists>new. gw_sent G' = gw_sent G @ new \<and> (new = [] \<or> is_reply (ge_endian env) s h new)"
  "on_sync env s h m G = Some G' \<Longrightarrow> ph_cmd_id h = 0x1006 \<Longrightarrow>
     \<exists>new. gw_sent G' = gw_sent G @ new \<and> (new = [] \<or> is_reply (ge_endian env) s h new)"
  "on_upload env s h m G = Some G' \<Longrightarrow> ph_cmd_id h = 0x1008 \<Longrightarrow>
     \<exists>new. gw_sent G' = gw_sent G @ new \<and> (new = [] \<or> is_reply (ge_endian env) s h new)"
  by (fastforce simp: on_login_def branch_defs Let_def split: option.splits prod.splits if_splits
      dest!: send_reply_sent)+

text \<open>
  C11: a message of a client makes the gateway send at most one frame, to the socket it came
  from. The frame answers the request: its header decodes, on any host, to the command number
  plus one, the version and sequence number of the request, and the length of header and body.
\<close>

theorem ws_message_reply:
  assumes "ws_message env s message opCode G = Some G'"
  shows "gw_sent G' = gw_sent G \<or>
    (\<exists>header frame reply. DecodeHeader (ge_endian env) message = Some header \<and>
       gw_sent G' = gw_sent G @ [(s, frame)] \<and> DecodeHeader h frame = Some reply \<and>
       ph_cmd_id reply = ph_cmd_id header + 1 \<and> ph_version reply = ph_version header \<and>
       ph_seq_id reply = ph_seq_id header \<and> ph_length reply = word_of_nat (length frame))"
proof (cases "gw_sent G' = gw_sent G")
  case False
  then obtain header where dec: "DecodeHeader (ge_endian env) message = Some header"
    and new: "\<exists>new. gw_sent G' = gw_sent G @ new \<and> (new = [] \<or> is_reply (ge_endian env) s header new)"
    using assms branch_sent [of env s _ message G G']
    by (auto simp: ws_message_def split: option.splits if_splits)
  with False obtain body where sent: "gw_sent G' = gw_sent G @
      [(s, encode_packet_header (ge_endian env) (reply_header header (ph_cmd_id header + 1) body) @ body)]"
    by (auto simp: is_reply_def)
  let ?reply = "reply_header header (ph_cmd_id header + 1) body"
  have "DecodeHeader h (encode_packet_header (ge_endian env) ?reply @ body) = Some ?reply"
    by (simp add: encode_packet_header_eq DecodeHeader_layout)
  moreover have "ph_length ?reply = word_of_nat (length
      (encode_packet_header (ge_endian env) ?reply @ body))"
    by (simp add: reply_header_def HEADER_LEN_def encode_packet_header_eq)
  ultimately show ?thesis
    using dec sent by (intro disjI2 exI [of _ header] exI [of _ ?reply] exI
        [of _ "encode_packet_header (ge_endian env) ?reply @ body"]) (simp add: reply_header_def)
qed simp

theorem ws_message_reply_witness:
  "\<exists>G' header frame reply.
     ws_message demo_env 0 (demo_packet 1 7) OP_BINARY (ws_open 0 (gateway_initial [])) = Some G' \<and>
     DecodeHeader Little (demo_packet 1 7) = Some header \<and> gw_sent G' = [(0, frame)] \<and>
     DecodeHeader Big frame = Some reply \<and> ph_cmd_id reply = ph_cmd_id header + 1 \<and>
     ph_seq_id reply = ph_seq_id header"
proof -
  let ?G = "ws_open 0 (gateway_initial []) :: i64 list gateway"
  have G: "gw_sockets ?G 0 \<noteq> None" "gw_sent ?G = []" by (simp_all add: ws_open_def gateway_initial_def)
  obtain G' where run: "ws_message demo_env 0 (demo_packet 1 7) OP_BINARY ?G = Some G'"
    and sent: "gw_sent G' \<noteq> gw_sent ?G"
    using demo_login [OF G(1), of 7] by simp
  from ws_message_reply [OF run, of Big] sent G(2) run show ?thesis by auto
qed

section \<open>Reading outside the message\<close>

lemma branches_defined:
  assumes "s \<in> dom (gw_sockets G)" and "HEADER_LEN \<le> length m" and "length m < 2 ^ 31"
  shows "on_send env s h m G \<noteq> None" and "on_sync env s h m G \<noteq> None" and "on_upload env s h m G \<noteq> None"
  using assms
  by (auto simp: branch_defs body_bytes_message Let_def split: option.splits prod.splits)

lemma on_login_None:
  assumes "s \<in> dom (gw_sockets G)"
  shows "on_login env s h m G = None \<longleftrightarrow> body_bytes m (login_size h) = None"
  using assms by (auto simp: on_login_def Let_def split: option.splits prod.splits)

text \<open>
  C12: the only message for which the gateway hands the parser memory outside the message is a
  binary login packet whose length field is smaller than a header or larger than the message,
  because the login branch trusts the length field where the other branches compare it with
  the size of the message. Every other message is handled without reading outside it; for
  those packets the parser reads outside unless it meets a malformed byte first.
\<close>

theorem ws_message_overread_iff:
  assumes "s \<in> dom (gw_sockets G)" and "length message < 2 ^ 31"
  shows "ws_message env s message opCode G = None \<longleftrightarrow>
    opCode = OP_BINARY \<and> (\<exists>header. DecodeHeader (ge_endian env) message = Some header \<and>
      ph_cmd_id header = 0x1001 \<and>
      (unat (ph_length header) < HEADER_LEN \<or> length message < unat (ph_length header)))"
proof (cases "opCode = OP_BINARY \<and> HEADER_LEN \<le> length message")
  case True
  then obtain header where dec: "DecodeHeader (ge_endian env) message = Some header"
    by (auto simp: DecodeHeader_def)
  have len: "HEADER_LEN \<le> length message" using True by simp
  show ?thesis
    using True dec branches_defined [OF assms(1) len assms(2)] on_login_None [OF assms(1)]
      body_bytes_login [OF assms(2), of header]
    by (auto simp: ws_message_def not_le)
next
  case False
  then show ?thesis by (auto simp: ws_message_def DecodeHeader_def)
qed

theorem ws_message_overread_iff_witness:
  "ws_message demo_env 0 lying_packet OP_BINARY (demo_gateway 7) = None"
proof -
  have "0 \<in> dom (gw_sockets (demo_gateway 7))" and "length lying_packet < 2 ^ 31"
    by (simp_all add: demo_gateway_def lying_packet_def)
  from ws_message_overread_iff [OF this, of demo_env OP_BINARY] show ?thesis
    by (simp add: lying_packet_def [symmetric]) (simp add: lying_packet_def)
qed

text \<open>
  C22: what the gateway drops without any effect: text messages, messages shorter than a
  header, unknown commands, requests other than a login whose length field exceeds the message,
  and messages to other users from a socket that has not logged in.
\<close>

theorem ws_message_drops:
  assumes "length message < 2 ^ 31"
    and "opCode \<noteq> OP_BINARY \<or> length message < HEADER_LEN \<or>
      (\<exists>header. DecodeHeader (ge_endian env) message = Some header \<and>
        (ph_cmd_id header \<notin> {0x1001, 0x1003, 0x1006, 0x1008} \<or>
         ph_cmd_id header \<noteq> 0x1001 \<and> length message < unat (ph_length header) \<or>
         ph_cmd_id header = 0x1003 \<and> uid_of G s = 0))"
  shows "ws_message env s message opCode G = Some G"
proof (cases "opCode = OP_BINARY \<and> HEADER_LEN \<le> length message")
  case True
  then have len: "HEADER_LEN \<le> length message" "length message < 2 ^ 64"
    using assms(1) by simp_all
  from True assms(2) obtain header where dec: "DecodeHeader (ge_endian env) message = Some header"
    and why: "ph_cmd_id header \<notin> {0x1001, 0x1003, 0x1006, 0x1008} \<or>
         ph_cmd_id header \<noteq> 0x1001 \<and> length message < unat (ph_length header) \<or>
         ph_cmd_id header = 0x1003 \<and> uid_of G s = 0"
    by auto
  from why show ?thesis
    using True dec length_ok_iff [OF len(2), of header] body_bytes_message [OF len(1) assms(1)]
    by (auto simp: ws_message_def branch_defs Let_def split: option.splits)
qed (auto simp: ws_message_def)

text \<open>The five ways a message is handled.\<close>

lemma ws_message_cases:
  assumes "ws_message env s m opCode G = Some G'"
  obtains (dropped) "G' = G"
    | (login) h where "HEADER_LEN \<le> length m" "DecodeHeader (ge_endian env) m = Some h"
        "ph_cmd_id h = 0x1001" "on_login env s h m G = Some G'"
    | (send) h where "HEADER_LEN \<le> length m" "DecodeHeader (ge_endian env) m = Some h"
        "ph_cmd_id h = 0x1003" "on_send env s h m G = Some G'"
    | (sync) h where "HEADER_LEN \<le> length m" "DecodeHeader (ge_endian env) m = Some h"
        "ph_cmd_id h = 0x1006" "on_sync env s h m G = Some G'"
    | (upload) h where "HEADER_LEN \<le> length m" "DecodeHeader (ge_endian env) m = Some h"
        "ph_cmd_id h = 0x1008" "on_upload env s h m G = Some G'"
proof (cases "opCode = OP_BINARY \<and> HEADER_LEN \<le> length m")
  case False
  with assms have "G' = G" by (auto simp: ws_message_def not_le split: if_splits)
  then show ?thesis by (rule dropped)
next
  case True
  then obtain h where dec: "DecodeHeader (ge_endian env) m = Some h"
    by (auto simp: DecodeHeader_def)
  note eq = assms [unfolded ws_message_def]
  consider "ph_cmd_id h = 0x1001" | "ph_cmd_id h = 0x1003" | "ph_cmd_id h = 0x1006"
    | "ph_cmd_id h = 0x1008" | "ph_cmd_id h \<notin> {0x1001, 0x1003, 0x1006, 0x1008}"
    by blast
  then show ?thesis
  proof cases
    case 1 then show ?thesis using True dec eq by (intro login) simp_all
  next
    case 2 then show ?thesis using True dec eq by (intro send) simp_all
  next
    case 3 then show ?thesis using True dec eq by (intro sync) simp_all
  next
    case 4 then show ?thesis using True dec eq by (intro upload) simp_all
  next
    case 5 then show ?thesis using True dec eq by (intro dropped) simp
  qed
qed

theorem ws_message_drops_witness:
  "ws_message demo_env 0 (demo_packet 3 5) OP_BINARY (ws_open 0 (gateway_initial [])) =
     Some (ws_open 0 (gateway_initial []))"
  by (rule ws_message_drops)
    (auto simp: uid_of_def ws_open_def gateway_initial_def)

section \<open>Who a request comes from\<close>

lemma send_reply_logic: "send_reply env s h cmd body G = Some G' \<Longrightarrow> gw_logic G' = gw_logic G"
  by (auto simp: send_reply_def ws_send_Some)

lemma on_login_logic:
  assumes "on_login env s h m G = Some G'"
  shows "gw_logic G' = gw_logic G \<or> (\<exists>req. gw_logic G' = snd (ge_login env req (gw_logic G)))"
proof -
  obtain b where b: "body_bytes m (login_size h) = Some b"
    using assms by (auto simp: on_login_def split: option.splits)
  show ?thesis
  proof (cases "ge_parse_login env b")
    case None
    with assms b show ?thesis by (simp add: on_login_def)
  next
    case (Some req)
    obtain res l where "ge_login env req (gw_logic G) = (res, l)" by fastforce
    with assms b Some have "gw_logic G' = snd (ge_login env req (gw_logic G))"
      by (cases res) (auto simp: on_login_def Let_def dest!: send_reply_logic split: if_splits)
    then show ?thesis by blast
  qed
qed

text \<open>
  C7: a request reaches the logic server under the number of its socket, whatever number the
  client wrote into it: \<open>from_uid\<close> of a message and \<open>uid\<close> of a synchronisation or an upload
  are overwritten. A message is only forwarded from a socket that has logged in; the other two
  are forwarded from any socket, with the number 0 before a login.
\<close>

theorem ws_message_identity:
  assumes "ws_message env s message opCode G = Some G'" and "length message < 2 ^ 31"
    and "gw_logic G' \<noteq> gw_logic G"
  shows "(\<exists>req. gw_logic G' = snd (ge_login env req (gw_logic G))) \<or>
    (\<exists>req. ge_parse_send env (drop HEADER_LEN message) = Some req \<and> uid_of G s \<noteq> 0 \<and>
       gw_logic G' = snd (ge_send env
         (req\<lparr>sq_msg := (sq_msg req)\<lparr>cm_from_uid := uid_of G s\<rparr>\<rparr>) (gw_logic G))) \<or>
    (\<exists>req. ge_parse_sync env (drop HEADER_LEN message) = Some req \<and>
       gw_logic G' = snd (ge_sync env (req\<lparr>yq_uid := uid_of G s\<rparr>) (gw_logic G))) \<or>
    (\<exists>req. ge_parse_upload env (drop HEADER_LEN message) = Some req \<and>
       gw_logic G' = snd (ge_upload env (req\<lparr>uq_uid := uid_of G s\<rparr>) (gw_logic G)))"
  using assms(1)
proof (cases rule: ws_message_cases)
  case dropped
  with assms(3) show ?thesis by simp
next
  case (login h)
  with on_login_logic [OF login(4)] assms(3) show ?thesis by blast
next
  case (send h)
  then show ?thesis using assms(3) body_bytes_message [OF send(1) assms(2)]
    by (auto simp: on_send_def Let_def split: option.splits prod.splits if_splits dest!: send_reply_logic)
next
  case (sync h)
  then show ?thesis using assms(3) body_bytes_message [OF sync(1) assms(2)]
    by (auto simp: on_sync_def split: option.splits prod.splits if_splits dest!: send_reply_logic)
next
  case (upload h)
  then show ?thesis using assms(3) body_bytes_message [OF upload(1) assms(2)]
    by (auto simp: on_upload_def split: option.splits prod.splits if_splits dest!: send_reply_logic)
qed

theorem ws_message_identity_witness:
  "\<exists>G'. ws_message demo_env 0 (demo_packet 3 5) OP_BINARY (demo_gateway 7) = Some G' \<and>
     gw_logic G' = [7] \<and>
     ((\<exists>req. gw_logic G' = snd (ge_login demo_env req [])) \<or>
      (\<exists>req. ge_parse_send demo_env [5] = Some req \<and> uid_of (demo_gateway 7) 0 \<noteq> 0 \<and>
         gw_logic G' = snd (ge_send demo_env
           (req\<lparr>sq_msg := (sq_msg req)\<lparr>cm_from_uid := uid_of (demo_gateway 7) 0\<rparr>\<rparr>) [])) \<or>
      (\<exists>req. ge_parse_sync demo_env [5] = Some req \<and>
         gw_logic G' = snd (ge_sync demo_env (req\<lparr>yq_uid := uid_of (demo_gateway 7) 0\<rparr>) [])) \<or>
      (\<exists>req. ge_parse_upload demo_env [5] = Some req \<and>
         gw_logic G' = snd (ge_upload demo_env (req\<lparr>uq_uid := uid_of (demo_gateway 7) 0\<rparr>) [])))"
proof -
  have G: "gw_sockets (demo_gateway 7) 0 = Some 7" "gw_logic (demo_gateway 7) = []"
    by (simp_all add: demo_gateway_def)
  obtain G' where run: "ws_message demo_env 0 (demo_packet 3 5) OP_BINARY (demo_gateway 7) = Some G'"
    and new: "gw_logic G' = [7]"
    using demo_send [OF G(1), of 5] G(2) by simp
  have "length (demo_packet 3 5) < 2 ^ 31" and "gw_logic G' \<noteq> gw_logic (demo_gateway 7)"
    using new G(2) by simp_all
  from ws_message_identity [OF run this] run new show ?thesis
    unfolding G(2) drop_demo_packet by blast
qed

end
