(* ===== verification/Gateway_Sessions.thy ===== *)
theory Gateway_Sessions
  imports Gateway_Spec
begin

text \<open>
  The session table of the gateway over its whole life: the events of the uWebSockets loop and
  of the gRPC thread as a step relation, the invariant that makes \<open>PushToUser\<close> safe, the only
  event that breaks it, and what happens after that.
\<close>

section \<open>Events\<close>

text \<open>
  A socket is fresh when it opens. Messages and closes concern open sockets; uWebSockets drops
  messages above \<open>maxPayloadLength\<close>. A push comes from the gRPC thread; the lock of the session
  table and the single-threaded loop make each event one step. Between the events the world of
  the logic server may change in any way.
\<close>

definition maxPayloadLength :: nat where
  "maxPayloadLength = 16 * 1024"

datatype gw_event =
    Opened ws
  | Message ws bytes opcode
  | Closed ws
  | Push PushMsgReq

definition gw_exec :: "'l gateway_env \<Rightarrow> gw_event \<Rightarrow> 'l gateway \<Rightarrow> 'l gateway option" where
  "gw_exec env ev G =
     (case ev of
        Opened s \<Rightarrow> Some (ws_open s G)
      | Message s m opCode \<Rightarrow> ws_message env s m opCode G
      | Closed s \<Rightarrow> Some (ws_close s G)
      | Push req \<Rightarrow> map_option snd (PushMsg req G))"

fun gw_enabled :: "gw_event \<Rightarrow> 'l gateway \<Rightarrow> bool" where
  "gw_enabled (Opened s) G \<longleftrightarrow> s \<notin> dom (gw_sockets G)"
| "gw_enabled (Message s m opCode) G \<longleftrightarrow>
     s \<in> dom (gw_sockets G) \<and> length m \<le> maxPayloadLength"
| "gw_enabled (Closed s) G \<longleftrightarrow> s \<in> dom (gw_sockets G)"
| "gw_enabled (Push req) G \<longleftrightarrow> True"

inductive gw_step :: "'l gateway_env \<Rightarrow> 'l gateway \<Rightarrow> 'l gateway \<Rightarrow> bool" for env where
  event: "gw_enabled ev G \<Longrightarrow> gw_exec env ev G = Some G' \<Longrightarrow> gw_step env G G'"
| world: "gw_step env G (G\<lparr>gw_logic := l\<rparr>)"

text \<open>
  The socket \<open>s\<close> keeps its session: it does not log in under another number while the table
  still leads to it under the old one.
\<close>

definition keeps_login :: "'l gateway \<Rightarrow> 'l gateway \<Rightarrow> bool" where
  "keeps_login G G' \<longleftrightarrow> (\<forall>s u u'. gw_sockets G s = Some u \<longrightarrow> gw_sessions G u = Some s \<longrightarrow>
     gw_sockets G' s = Some u' \<longrightarrow> u' = u)"

inductive gw_reach :: "'l gateway_env \<Rightarrow> 'l gateway \<Rightarrow> bool" for env where
  initial: "gw_reach env (gateway_initial l)"
| step: "gw_reach env G \<Longrightarrow> gw_step env G G' \<Longrightarrow> keeps_login G G' \<Longrightarrow> gw_reach env G'"

section \<open>The invariant\<close>

text \<open>Every entry of the table leads to an open socket that is logged in under its key.\<close>

definition session_sound :: "'l gateway \<Rightarrow> bool" where
  "session_sound G \<longleftrightarrow> (\<forall>u s. gw_sessions G u = Some s \<longrightarrow> gw_sockets G s = Some u)"

lemma session_soundD: "session_sound G \<Longrightarrow> gw_sessions G u = Some s \<Longrightarrow> gw_sockets G s = Some u"
  by (simp add: session_sound_def)

lemma session_sound_cong:
  "gw_sessions G = gw_sessions G' \<Longrightarrow> gw_sockets G = gw_sockets G' \<Longrightarrow>
   session_sound G = session_sound G'"
  by (simp add: session_sound_def)

lemma sound_initial: "session_sound (gateway_initial l)"
  by (simp add: session_sound_def gateway_initial_def)

lemma sound_open:
  assumes "session_sound G" and "s \<notin> dom (gw_sockets G)"
  shows "session_sound (ws_open s G)"
  using assms by (auto simp: session_sound_def ws_open_def domIff)

lemma sound_close:
  assumes "session_sound G"
  shows "session_sound (ws_close s G)"
  using assms by (auto simp: session_sound_def ws_close_def uid_of_def)

lemma PushMsg_eq:
  "PushMsg req G =
     (case gw_sessions G (psq_to_uid req) of
        None \<Rightarrow> Some (PushMsgRes_default\<lparr>psr_err_code := -1, psr_err_msg := ''User not found locally''\<rparr>, G)
      | Some s \<Rightarrow> if s \<in> dom (gw_sockets G)
          then Some (PushMsgRes_default\<lparr>psr_err_code := 0\<rparr>,
                     G\<lparr>gw_sent := gw_sent G @ [(s, psq_content req)]\<rparr>)
          else None)"
  by (simp add: PushMsg_def PushToUser_def find_session_def ws_send_def split: option.split)

lemma PushMsg_frame:
  "PushMsg req G = Some (res, G') \<Longrightarrow>
   gw_sockets G' = gw_sockets G \<and> gw_sessions G' = gw_sessions G \<and> gw_logic G' = gw_logic G"
  by (auto simp: PushMsg_eq split: option.splits if_splits)

text \<open>What a message does to sockets and table: nothing, or it logs the socket in.\<close>

lemma send_reply_tables:
  "send_reply env s h cmd body G = Some G' \<Longrightarrow>
   gw_sockets G' = gw_sockets G \<and> gw_sessions G' = gw_sessions G"
  by (auto simp: send_reply_def ws_send_Some)

definition same_tables :: "'l gateway \<Rightarrow> 'l gateway \<Rightarrow> bool" where
  "same_tables G G' \<longleftrightarrow> gw_sockets G' = gw_sockets G \<and> gw_sessions G' = gw_sessions G"

definition logged_in :: "i64 \<Rightarrow> ws \<Rightarrow> 'l gateway \<Rightarrow> 'l gateway \<Rightarrow> bool" where
  "logged_in u s G G' \<longleftrightarrow>
     gw_sockets G' = (gw_sockets G)(s \<mapsto> u) \<and> gw_sessions G' = (gw_sessions G)(u \<mapsto> s)"

lemma on_login_tables:
  assumes "on_login env s h m G = Some G'"
  shows "same_tables G G' \<or> (\<exists>u. logged_in u s G G')"
proof -
  obtain b where b: "body_bytes m (login_size h) = Some b"
    using assms by (auto simp: on_login_def split: option.splits)
  show ?thesis
  proof (cases "ge_parse_login env b")
    case None
    with assms b show ?thesis by (simp add: on_login_def same_tables_def)
  next
    case (Some req)
    obtain r l where r: "ge_login env req (gw_logic G) = (r, l)" by (metis surj_pair)
    show ?thesis
    proof (cases r)
      case None
      with assms b Some r show ?thesis by (auto simp: on_login_def same_tables_def)
    next
      case (Some res)
      with assms b \<open>ge_parse_login env b = Some req\<close> r show ?thesis
        by (auto simp: on_login_def Let_def same_tables_def logged_in_def
            dest!: send_reply_tables split: if_splits)
    qed
  qed
qed

lemma branch_tables:
  "on_send env s h m G = Some G' \<Longrightarrow> same_tables G G'"
  "on_sync env s h m G = Some G' \<Longrightarrow> same_tables G G'"
  "on_upload env s h m G = Some G' \<Longrightarrow> same_tables G G'"
  by (auto simp: branch_defs Let_def same_tables_def split: option.splits prod.splits if_splits
      dest!: send_reply_tables)

lemma message_tables:
  assumes "ws_message env s m opCode G = Some G'"
  shows "same_tables G G' \<or> (\<exists>u. logged_in u s G G')"
  using assms
proof (cases rule: ws_message_cases)
  case dropped
  then show ?thesis by (simp add: same_tables_def)
qed (auto dest: on_login_tables branch_tables)

lemma logged_in_sound_iff:
  assumes "session_sound G" and "gw_sockets G s = Some a" and "logged_in u s G G'"
  shows "session_sound G' \<longleftrightarrow> u = a \<or> gw_sessions G a \<noteq> Some s"
proof (cases "u = a \<or> gw_sessions G a \<noteq> Some s")
  case True
  have "gw_sockets G' t = Some v" if "gw_sessions G' v = Some t" for v t
  proof (cases "v = u")
    case True
    with that assms(3) show ?thesis by (auto simp: logged_in_def)
  next
    case False
    with that assms(3) have t: "gw_sessions G v = Some t" by (simp add: logged_in_def)
    then have "gw_sockets G t = Some v" by (rule session_soundD [OF assms(1)])
    with t True False assms(2,3) show ?thesis by (auto simp: logged_in_def)
  qed
  with True show ?thesis by (simp add: session_sound_def)
next
  case False
  with assms(3) have "gw_sessions G' a = Some s" and "gw_sockets G' s = Some u" and "u \<noteq> a"
    by (auto simp: logged_in_def)
  then have "\<not> session_sound G'" using session_soundD [of G' a s] by auto
  with False show ?thesis by blast
qed

lemma same_tables_sound: "same_tables G G' \<Longrightarrow> session_sound G' \<longleftrightarrow> session_sound G"
  by (simp add: same_tables_def session_sound_def)

lemma sound_message:
  assumes "session_sound G" and "s \<in> dom (gw_sockets G)"
    and "ws_message env s m opCode G = Some G'" and "keeps_login G G'"
  shows "session_sound G'"
  using message_tables [OF assms(3)]
proof
  assume "same_tables G G'"
  with assms(1) show ?thesis by (simp add: same_tables_sound)
next
  assume "\<exists>u. logged_in u s G G'"
  then obtain u where u: "logged_in u s G G'" by blast
  obtain a where a: "gw_sockets G s = Some a" using assms(2) by auto
  have "gw_sockets G' s = Some u" using u by (simp add: logged_in_def)
  with assms(4) a have "u = a \<or> gw_sessions G a \<noteq> Some s"
    by (auto simp: keeps_login_def)
  with logged_in_sound_iff [OF assms(1) a u] show ?thesis by simp
qed

lemma sound_step:
  assumes "session_sound G" and "gw_step env G G'" and "keeps_login G G'"
  shows "session_sound G'"
  using assms(2)
proof cases
  case (event ev)
  show ?thesis
  proof (cases ev)
    case (Opened s)
    with event assms(1) show ?thesis by (auto simp: gw_exec_def intro: sound_open)
  next
    case (Message s m opCode)
    with event assms(1,3) show ?thesis by (auto simp: gw_exec_def intro: sound_message)
  next
    case (Closed s)
    with event assms(1) show ?thesis by (auto simp: gw_exec_def intro: sound_close)
  next
    case (Push req)
    with event have "same_tables G G'"
      by (auto simp: gw_exec_def same_tables_def dest: PushMsg_frame)
    with assms(1) show ?thesis by (simp add: same_tables_sound)
  qed
next
  case (world l)
  with assms(1) show ?thesis by (simp add: session_sound_def)
qed

lemma reach_sound: "gw_reach env G \<Longrightarrow> session_sound G"
  by (induction rule: gw_reach.induct) (auto intro: sound_initial sound_step)

lemma demo_reach:
  "\<exists>G. gw_reach demo_env G \<and> gw_sessions G = [7 \<mapsto> 0] \<and> gw_sockets G = [0 \<mapsto> 7]"
proof -
  let ?G0 = "gateway_initial [] :: i64 list gateway" and ?G1 = "ws_open 0 (gateway_initial []) :: i64 list gateway"
  have e1: "gw_exec demo_env (Opened 0) ?G0 = Some ?G1" by (simp add: gw_exec_def)
  have "gw_step demo_env ?G0 ?G1"
    by (rule gw_step.event [OF _ e1]) (simp add: gateway_initial_def)
  moreover have "keeps_login ?G0 ?G1" by (simp add: keeps_login_def gateway_initial_def)
  ultimately have r1: "gw_reach demo_env ?G1" by (rule gw_reach.step [OF gw_reach.initial])
  have open0: "gw_sockets ?G1 0 \<noteq> None" by (simp add: ws_open_def)
  obtain G2 where run: "ws_message demo_env 0 (demo_packet 1 7) OP_BINARY ?G1 = Some G2"
    and tables: "gw_sessions G2 = [7 \<mapsto> 0]" "gw_sockets G2 = [0 \<mapsto> 7]"
    using demo_login [OF open0, of 7] by (auto simp: ws_open_def gateway_initial_def)
  have e2: "gw_exec demo_env (Message 0 (demo_packet 1 7) OP_BINARY) ?G1 = Some G2"
    using run by (simp add: gw_exec_def)
  have "gw_step demo_env ?G1 G2"
    by (rule gw_step.event [OF _ e2]) (simp add: ws_open_def maxPayloadLength_def)
  moreover have "keeps_login ?G1 G2" by (simp add: keeps_login_def ws_open_def gateway_initial_def)
  ultimately have "gw_reach demo_env G2" by (rule gw_reach.step [OF r1])
  with tables show ?thesis by blast
qed

section \<open>Pushing\<close>

text \<open>
  C6: as long as no socket logs in under a second number while the session table leads to it,
  a push is safe and exact in every reachable state, whatever the order of connects, messages,
  pushes and disconnects and whatever the logic server answers: it never touches a destroyed
  socket; it reports success exactly when the user has a session, and then it has sent the
  packet, unchanged and once, to an open socket that is logged in as that user; otherwise it
  has sent nothing.
\<close>

theorem push_reaches_user:
  assumes "gw_reach env G"
  shows "\<exists>res G'. PushMsg req G = Some (res, G') \<and>
    (psr_err_code res = 0 \<longleftrightarrow> gw_sessions G (psq_to_uid req) \<noteq> None) \<and>
    (if psr_err_code res = 0
     then \<exists>s. gw_sockets G s = Some (psq_to_uid req) \<and> gw_sent G' = gw_sent G @ [(s, psq_content req)]
     else psr_err_code res = -1 \<and> G' = G)"
proof (cases "gw_sessions G (psq_to_uid req)")
  case None
  then show ?thesis by (simp add: PushMsg_eq PushMsgRes_default_def)
next
  case (Some s)
  then have "gw_sockets G s = Some (psq_to_uid req)"
    using session_soundD [OF reach_sound [OF assms]] by blast
  with Some show ?thesis by (auto simp: PushMsg_eq PushMsgRes_default_def)
qed

theorem push_reaches_user_witness:
  "\<exists>G res G'. gw_reach demo_env G \<and>
     PushMsg \<lparr>psq_to_uid = 7, psq_content = [1, 2]\<rparr> G = Some (res, G') \<and> psr_err_code res = 0 \<and>
     gw_sent G' = gw_sent G @ [(0, [1, 2])]"
proof -
  obtain G where G: "gw_reach demo_env G" "gw_sessions G = [7 \<mapsto> 0]" "gw_sockets G = [0 \<mapsto> 7]"
    using demo_reach by blast
  from push_reaches_user [OF G(1), of "\<lparr>psq_to_uid = 7, psq_content = [1, 2]\<rparr>"]
  obtain res G' where "PushMsg \<lparr>psq_to_uid = 7, psq_content = [1, 2]\<rparr> G = Some (res, G')"
    and "psr_err_code res = 0" and "\<exists>s. gw_sockets G s = Some 7 \<and> gw_sent G' = gw_sent G @ [(s, [1, 2])]"
    using G(2) by auto
  moreover from this(3) have "gw_sent G' = gw_sent G @ [(0, [1, 2])]"
    using G(3) by (auto split: if_splits)
  ultimately show ?thesis using G(1) by blast
qed

section \<open>Losing the invariant\<close>

lemma uid_of_Some: "gw_sockets G s = Some u \<Longrightarrow> uid_of G s = u"
  by (simp add: uid_of_def)

text \<open>
  C19: a message leaves the session table sound exactly when its socket keeps its user number,
  or the table did not lead to the socket under the old one. A successful login under a second
  number is therefore the only message that breaks the table, and it always does: the old entry
  is not removed.
\<close>

theorem relogin_breaks_iff:
  assumes "session_sound G" and "gw_sockets G s = Some a"
    and "ws_message env s message opCode G = Some G'"
  shows "session_sound G' \<longleftrightarrow> uid_of G' s = a \<or> gw_sessions G a \<noteq> Some s"
  using message_tables [OF assms(3)]
proof
  assume same: "same_tables G G'"
  then have "uid_of G' s = a" using assms(2) by (simp add: same_tables_def uid_of_def)
  with same assms(1) show ?thesis by (simp add: same_tables_sound)
next
  assume "\<exists>u. logged_in u s G G'"
  then obtain u where u: "logged_in u s G G'" by blast
  then have "uid_of G' s = u" by (simp add: logged_in_def uid_of_def)
  with logged_in_sound_iff [OF assms(1,2) u] show ?thesis by simp
qed

lemma demo_gateway_tables:
  "gw_sockets (demo_gateway u) = [0 \<mapsto> u]" "gw_sessions (demo_gateway u) = [u \<mapsto> 0]"
  by (simp_all add: demo_gateway_def)

theorem relogin_breaks_iff_witness:
  "\<exists>G'. ws_message demo_env 0 (demo_packet 1 8) OP_BINARY (demo_gateway 7) = Some G' \<and>
     \<not> session_sound G'"
proof -
  have sound: "session_sound (demo_gateway 7)"
    by (simp add: session_sound_def demo_gateway_tables)
  have s: "gw_sockets (demo_gateway 7) 0 = Some 7" by (simp add: demo_gateway_tables)
  then obtain G' where run: "ws_message demo_env 0 (demo_packet 1 8) OP_BINARY (demo_gateway 7) = Some G'"
    and "uid_of G' 0 = 8"
    using demo_login [of "demo_gateway 7" 0 8] by (simp add: uid_of_def)
  with relogin_breaks_iff [OF sound s run] show ?thesis by (simp add: demo_gateway_tables)
qed

text \<open>
  C20: after a client logged in under a second number \<open>b\<close>, a push to its first number \<open>a\<close> is
  sent to the socket that now belongs to \<open>b\<close>; and once the client has disconnected, the same
  push calls \<open>send\<close> through a pointer to the destroyed socket.
\<close>

theorem relogin_leaves_dangling_session:
  assumes "gw_sockets G s = Some a" and "gw_sessions G a = Some s"
    and "ws_message env s message opCode G = Some G'" and "gw_sockets G' s = Some b" and "b \<noteq> a"
  shows "(\<exists>res G2. PushMsg \<lparr>psq_to_uid = a, psq_content = c\<rparr> G' = Some (res, G2) \<and>
           psr_err_code res = 0 \<and> gw_sent G2 = gw_sent G' @ [(s, c)]) \<and>
         PushMsg \<lparr>psq_to_uid = a, psq_content = c\<rparr> (ws_close s G') = None"
proof -
  have "\<not> same_tables G G'" using assms(1,4,5) by (auto simp: same_tables_def)
  then obtain u where "logged_in u s G G'" using message_tables [OF assms(3)] by blast
  with assms(2,4,5) have a: "gw_sessions G' a = Some s" by (auto simp: logged_in_def)
  then have "PushMsg \<lparr>psq_to_uid = a, psq_content = c\<rparr> G' =
      Some (PushMsgRes_default\<lparr>psr_err_code := 0\<rparr>, G'\<lparr>gw_sent := gw_sent G' @ [(s, c)]\<rparr>)"
    using assms(4) by (simp add: PushMsg_eq domIff)
  moreover have "PushMsg \<lparr>psq_to_uid = a, psq_content = c\<rparr> (ws_close s G') = None"
    using a assms(4,5) by (simp add: PushMsg_eq ws_close_def uid_of_Some)
  moreover have "psr_err_code (PushMsgRes_default\<lparr>psr_err_code := 0\<rparr>) = 0"
    and "gw_sent (G'\<lparr>gw_sent := gw_sent G' @ [(s, c)]\<rparr>) = gw_sent G' @ [(s, c)]" by simp_all
  ultimately show ?thesis by blast
qed

theorem relogin_leaves_dangling_session_witness:
  "\<exists>G'. ws_message demo_env 0 (demo_packet 1 8) OP_BINARY (demo_gateway 7) = Some G' \<and>
     PushMsg \<lparr>psq_to_uid = 7, psq_content = [1]\<rparr> (ws_close 0 G') = None"
proof -
  have s: "gw_sockets (demo_gateway 7) 0 = Some 7" "gw_sessions (demo_gateway 7) 7 = Some 0"
    by (simp_all add: demo_gateway_tables)
  then obtain G' where run: "ws_message demo_env 0 (demo_packet 1 8) OP_BINARY (demo_gateway 7) = Some G'"
    and b: "gw_sockets G' 0 = Some 8"
    using demo_login [of "demo_gateway 7" 0 8] by simp
  have "(8 :: i64) \<noteq> 7" by simp
  from relogin_leaves_dangling_session [OF s run b this, of "[1]"] run show ?thesis by blast
qed

text \<open>
  C21: when a user is logged in on two sockets, closing the older one removes the session of the
  newer one: that socket stays open and logged in, and no push reaches it any more.
\<close>

theorem close_drops_newer_session:
  assumes "gw_sockets G s = Some u" and "gw_sockets G t = Some u" and "t \<noteq> s"
  shows "gw_sockets (ws_close s G) t = Some u \<and>
    (\<exists>res. PushMsg \<lparr>psq_to_uid = u, psq_content = c\<rparr> (ws_close s G) = Some (res, ws_close s G) \<and>
       psr_err_code res = -1)"
  using assms by (simp add: ws_close_def uid_of_Some PushMsg_eq)

theorem close_drops_newer_session_witness:
  "\<exists>G res. ws_message demo_env 1 (demo_packet 1 7) OP_BINARY (ws_open 1 (demo_gateway 7)) = Some G \<and>
     gw_sessions G 7 = Some 1 \<and> gw_sockets (ws_close 0 G) 1 = Some 7 \<and>
     PushMsg \<lparr>psq_to_uid = 7, psq_content = [1]\<rparr> (ws_close 0 G) = Some (res, ws_close 0 G) \<and>
     psr_err_code res = -1"
proof -
  have open1: "gw_sockets (ws_open 1 (demo_gateway 7)) 1 \<noteq> None" by (simp add: ws_open_def)
  obtain G where "ws_message demo_env 1 (demo_packet 1 7) OP_BINARY (ws_open 1 (demo_gateway 7)) = Some G"
    and "gw_sessions G 7 = Some 1" and G: "gw_sockets G 0 = Some 7" "gw_sockets G 1 = Some 7"
    using demo_login [OF open1, of 7] by (simp add: ws_open_def demo_gateway_tables)
  moreover from close_drops_newer_session [OF G, of "[1]"] obtain res where
    "gw_sockets (ws_close 0 G) 1 = Some 7" and "psr_err_code res = -1" and
    "PushMsg \<lparr>psq_to_uid = 7, psq_content = [1]\<rparr> (ws_close 0 G) = Some (res, ws_close 0 G)"
    by auto
  ultimately show ?thesis by blast
qed

end
