(* ===== verification/S3_Client.thy ===== *)
theory S3_Client
  imports Cpp_Text Keyed_Store
begin

text \<open>
  \<open>server/logic_server/s3_client.h\<close>: endpoint parsing, the extraction of a value from the
  JSON answer of SeaweedFS, the HTTP client on raw sockets and the client object with its
  table from object names to file ids. The socket calls are the record \<open>net_env\<close> over an
  opaque state of the network; a peer that never closes the connection makes \<open>HttpGet\<close> run
  forever, so it is a partial function.
\<close>

section \<open>Endpoints\<close>

record ParsedEndpoint =
  ep_scheme :: string
  ep_host :: string
  ep_port :: i32

definition ParseEndpoint :: "string \<Rightarrow> string \<Rightarrow> i32 \<Rightarrow> ParsedEndpoint throws" where
  "ParseEndpoint endpoint default_scheme default_port =
     (let parsed = \<lparr>ep_scheme = default_scheme, ep_host = endpoint, ep_port = default_port\<rparr>;
          (parsed, remain) =
            (case find_sub ''://'' endpoint of
               Some scheme_pos \<Rightarrow>
                 (parsed\<lparr>ep_scheme := take scheme_pos endpoint\<rparr>, drop (scheme_pos + 3) endpoint)
             | None \<Rightarrow> (parsed, endpoint));
          remain =
            (case find_sub ''/'' remain of
               Some slash_pos \<Rightarrow> take slash_pos remain
             | None \<Rightarrow> remain)
      in case rfind_char (CHR '':'') remain of
           Some port_pos \<Rightarrow>
             ebind (stoi (drop (port_pos + 1) remain))
               (\<lambda>p. Inr (parsed\<lparr>ep_host := take port_pos remain, ep_port := p\<rparr>))
         | None \<Rightarrow> Inr (parsed\<lparr>ep_host := remain\<rparr>))"

section \<open>JSON answers\<close>

definition QUOTE :: char where "QUOTE = CHR 0x22"

definition ExtractJsonValue :: "string \<Rightarrow> string \<Rightarrow> string" where
  "ExtractJsonValue json key =
     (let search = [QUOTE] @ key @ [QUOTE] @ '':'' @ [QUOTE]
      in case find_sub search json of
           None \<Rightarrow>
             (let search = [QUOTE] @ key @ [QUOTE] @ '':''
              in case find_sub search json of
                   None \<Rightarrow> []
                 | Some pos \<Rightarrow>
                     (let start = pos + length search
                      in substr_to json start (find_first_of '',}'' json start)))
         | Some pos \<Rightarrow>
             (let start = pos + length search
              in substr_to json start (find_from [QUOTE] json start)))"

section \<open>HTTP over a socket\<close>

text \<open>
  The socket interface. \<open>net_recv\<close> gives the bytes of one \<open>recv\<close> call, \<open>None\<close> when it
  returns zero or less. The port is the one \<open>htons\<close> receives, an \<open>int\<close> cut to 16 bits.
\<close>

record 'n net_env =
  net_socket :: "'n \<Rightarrow> int \<times> 'n"
  net_gethostbyname :: "string \<Rightarrow> 'n \<Rightarrow> bytes option \<times> 'n"
  net_connect :: "int \<Rightarrow> bytes \<Rightarrow> u16 \<Rightarrow> 'n \<Rightarrow> int \<times> 'n"
  net_send :: "int \<Rightarrow> string \<Rightarrow> 'n \<Rightarrow> 'n"
  net_recv :: "int \<Rightarrow> nat \<Rightarrow> 'n \<Rightarrow> string option \<times> 'n"
  net_close :: "int \<Rightarrow> 'n \<Rightarrow> 'n"

definition CRLF :: string where "CRLF = [CHR 0x0D, CHR 0x0A]"

text \<open>
  The receive loop. The buffer is appended as a C string, so what follows a zero byte in one
  chunk is lost.
\<close>

partial_function (option) recv_loop ::
  "'n net_env \<Rightarrow> int \<Rightarrow> string \<Rightarrow> 'n \<Rightarrow> (string \<times> 'n) option" where
  "recv_loop env sock response n =
     (case net_recv env sock 4095 n of
        (None, n') \<Rightarrow> Some (response, n')
      | (Some chunk, n') \<Rightarrow> recv_loop env sock (response @ c_str chunk) n')"

definition http_request :: "string \<Rightarrow> string \<Rightarrow> string" where
  "http_request host path =
     ''GET '' @ path @ '' HTTP/1.1'' @ CRLF @ ''Host: '' @ host @ CRLF @
     ''Connection: close'' @ CRLF @ CRLF"

definition http_body :: "string \<Rightarrow> string" where
  "http_body response =
     (case find_sub (CRLF @ CRLF) response of
        Some header_end \<Rightarrow> drop (header_end + 4) response
      | None \<Rightarrow> response)"

definition HttpGet ::
  "'n net_env \<Rightarrow> string \<Rightarrow> i32 \<Rightarrow> string \<Rightarrow> 'n \<Rightarrow> (string \<times> 'n) option" where
  "HttpGet env host port path n =
     (case net_socket env n of (sock, n1) \<Rightarrow>
        if sock < 0 then Some ([], n1)
        else case net_gethostbyname env (c_str host) n1 of
          (None, n2) \<Rightarrow> Some ([], net_close env sock n2)
        | (Some addr, n2) \<Rightarrow>
            (case net_connect env sock addr (ucast port) n2 of (rc, n3) \<Rightarrow>
               if rc < 0 then Some ([], net_close env sock n3)
               else case recv_loop env sock [] (net_send env sock (http_request host path) n3) of
                      None \<Rightarrow> None
                    | Some (response, n4) \<Rightarrow> Some (http_body response, net_close env sock n4)))"

section \<open>The client\<close>

record S3Client =
  s3_master :: ParsedEndpoint
  s3_public :: ParsedEndpoint
  s3_bucket :: string
  s3_access_key :: string
  s3_secret_key :: string
  object_fid_map :: "string \<rightharpoonup> string"

definition S3Client_new ::
  "string \<Rightarrow> string \<Rightarrow> string \<Rightarrow> string \<Rightarrow> string \<Rightarrow> S3Client throws" where
  "S3Client_new master_endpoint public_endpoint bucket access_key secret_key =
     ebind (ParseEndpoint master_endpoint ''http'' 9333) (\<lambda>m.
       ebind (ParseEndpoint public_endpoint ''http'' 8080) (\<lambda>p.
         Inr \<lparr>s3_master = m, s3_public = p, s3_bucket = bucket, s3_access_key = access_key,
              s3_secret_key = secret_key, object_fid_map = Map.empty\<rparr>))"

definition CheckConnectivity :: "'n net_env \<Rightarrow> S3Client \<Rightarrow> 'n \<Rightarrow> (bool \<times> 'n) option" where
  "CheckConnectivity env s3 n =
     (case HttpGet env (ep_host (s3_master s3)) (ep_port (s3_master s3)) ''/dir/status'' n of
        None \<Rightarrow> None
      | Some (response, n') \<Rightarrow> Some (response \<noteq> [], n'))"

definition endpoint_url :: "ParsedEndpoint \<Rightarrow> string" where
  "endpoint_url e = ep_scheme e @ ''://'' @ ep_host e @ '':'' @ to_string (ep_port e)"

definition BuildPublicBaseUrl :: "S3Client \<Rightarrow> string" where
  "BuildPublicBaseUrl s3 = endpoint_url (s3_public s3)"

definition remember_fid :: "string \<Rightarrow> string \<Rightarrow> S3Client \<Rightarrow> S3Client" where
  "remember_fid object_name fid s3 =
     s3\<lparr>object_fid_map := (object_fid_map s3)(object_name \<mapsto> fid)\<rparr>"

definition find_fid :: "S3Client \<Rightarrow> string \<Rightarrow> string option" where
  "find_fid s3 object_name = object_fid_map s3 object_name"

definition GetPresignedPutUrl ::
  "'n net_env \<Rightarrow> string \<Rightarrow> S3Client \<times> 'n \<Rightarrow> (string \<times> S3Client \<times> 'n) option" where
  "GetPresignedPutUrl env object_name st =
     (case st of (s3, n) \<Rightarrow>
        let assign_path = ''/dir/assign?count=1&collection='' @ s3_bucket s3
        in case HttpGet env (ep_host (s3_master s3)) (ep_port (s3_master s3)) assign_path n of
             None \<Rightarrow> None
           | Some (response, n') \<Rightarrow>
               if response = [] then Some ([], s3, n')
               else let fid = ExtractJsonValue response ''fid''
                    in if fid = [] then Some ([], s3, n')
                       else let s3' = remember_fid object_name fid s3;
                                final_url = BuildPublicBaseUrl s3' @ ''/'' @ fid @
                                  ''?collection='' @ s3_bucket s3' @ ''&filename='' @ object_name;
                                final_url = (if s3_access_key s3' \<noteq> []
                                  then final_url @ ''&accessKey='' @ s3_access_key s3'
                                  else final_url);
                                final_url = (if s3_secret_key s3' \<noteq> []
                                  then final_url @ ''&secretKey='' @ s3_secret_key s3'
                                  else final_url)
                            in Some (final_url, s3', n'))"

definition GetDownloadUrl :: "string \<Rightarrow> S3Client \<Rightarrow> string" where
  "GetDownloadUrl object_name s3 =
     (let fid = (case find_fid s3 object_name of Some f \<Rightarrow> f | None \<Rightarrow> [])
      in if fid = [] then []
         else BuildPublicBaseUrl s3 @ ''/'' @ fid @ ''?collection='' @ s3_bucket s3)"

interpretation fids: keyed_store remember_fid find_fid
  by unfold_locales (simp add: remember_fid_def find_fid_def)

section \<open>Endpoint lemmas\<close>

lemma find_slash_path:
  assumes "CHR ''/'' \<notin> set s" and "path = [] \<or> hd path = CHR ''/''"
  shows "(case find_sub ''/'' (s @ path) of Some i \<Rightarrow> take i (s @ path) | None \<Rightarrow> s @ path) = s"
  using assms find_char_append [of s "[CHR ''/'']" path]
  by (cases path) (auto simp: find_sub_single find_char_None)

lemma port_no_slash: "CHR ''/'' \<notin> set (to_string p)" and port_no_colon: "CHR '':'' \<notin> set (to_string p)"
  by (auto dest!: to_string_chars simp: is_digit_def)

lemma find_scheme:
  assumes "CHR '':'' \<notin> set sch"
  shows "find_sub ''://'' (sch @ ''://'' @ rest) = Some (length sch)"
  using find_sub_skip [of "CHR '':''" sch "''//''" "''://'' @ rest"] assms
  by (simp add: find_sub_here)

lemma ParseEndpoint_endpoint_url:
  assumes "CHR '':'' \<notin> set (ep_scheme e)" and "CHR ''/'' \<notin> set (ep_host e)"
    and "path = [] \<or> hd path = CHR ''/''"
  shows "ParseEndpoint (endpoint_url e @ path) ds dp = Inr e"
proof -
  let ?hp = "ep_host e @ '':'' @ to_string (ep_port e)"
  have scheme: "find_sub ''://'' (endpoint_url e @ path) = Some (length (ep_scheme e))"
    using find_scheme [OF assms(1)] by (simp add: endpoint_url_def)
  have slash: "(case find_sub ''/'' (?hp @ path) of Some i \<Rightarrow> take i (?hp @ path)
      | None \<Rightarrow> ?hp @ path) = ?hp"
    by (rule find_slash_path) (use assms port_no_slash in auto)
  have remain: "drop (length (ep_scheme e) + 3) (endpoint_url e @ path) = ?hp @ path"
    by (simp add: endpoint_url_def)
  have colon: "rfind_char (CHR '':'') ?hp = Some (length (ep_host e))"
    using rfind_char_last [OF port_no_colon] by simp
  show ?thesis
    unfolding ParseEndpoint_def Let_def
    by (simp only: scheme option.case prod.case remain slash colon)
      (simp add: endpoint_url_def)
qed

lemma ParseEndpoint_plain:
  assumes "CHR '':'' \<notin> set host" and "CHR ''/'' \<notin> set host"
  shows "ParseEndpoint host ds dp = Inr \<lparr>ep_scheme = ds, ep_host = host, ep_port = dp\<rparr>"
proof -
  have "find_sub ''://'' host = None"
    using find_sub_skip [of "CHR '':''" host "''//''" "[]"] assms(1) by simp
  moreover have "find_sub ''/'' host = None"
    using assms(2) by (simp add: find_sub_single find_char_None)
  ultimately show ?thesis
    using assms by (simp add: ParseEndpoint_def rfind_char_None)
qed

section \<open>Answer and transfer lemmas\<close>

lemma find_from_QUOTE:
  assumes "QUOTE \<notin> set v"
  shows "find_from [QUOTE] (pre @ v @ QUOTE # post) (length pre) = Some (length pre + length v)"
  using find_char_append [of v "[QUOTE]" "QUOTE # post"] assms
  by (simp add: find_from_def find_sub_single)

lemma ExtractJsonValue_string:
  assumes "find_sub (QUOTE # key @ [QUOTE, CHR '':'', QUOTE]) json = Some (length pre)"
    and "json = pre @ QUOTE # key @ [QUOTE, CHR '':'', QUOTE] @ v @ QUOTE # post"
    and "QUOTE \<notin> set v"
  shows "ExtractJsonValue json key = v"
proof -
  let ?pat = "QUOTE # key @ [QUOTE, CHR '':'', QUOTE]"
  have search: "[QUOTE] @ key @ [QUOTE] @ '':'' @ [QUOTE] = ?pat" by simp
  have json: "json = (pre @ ?pat) @ v @ QUOTE # post" using assms(2) by simp
  have stop: "find_from [QUOTE] json (length pre + length ?pat)
      = Some (length pre + length ?pat + length v)"
    using find_from_QUOTE [OF assms(3), of "pre @ ?pat" post] by (simp add: json add_ac)
  have rest: "drop (length pre + length ?pat) json = v @ QUOTE # post"
    unfolding length_append [symmetric] json by (rule append_eq_conv_conj [THEN iffD1, THEN conjunct2, symmetric, OF refl])
  show ?thesis
    unfolding ExtractJsonValue_def Let_def search assms(1)
    by (simp only: option.case stop substr_to_def rest) simp
qed

text \<open>
  \<open>feeds env sock n cs n'\<close>: from state \<open>n\<close> on, the \<open>recv\<close> calls deliver the chunks
  \<open>cs\<close> and then the end of the connection.
\<close>

fun feeds :: "'n net_env \<Rightarrow> int \<Rightarrow> 'n \<Rightarrow> string list \<Rightarrow> 'n \<Rightarrow> bool" where
  "feeds env sock n [] n' \<longleftrightarrow> net_recv env sock 4095 n = (None, n')"
| "feeds env sock n (c # cs) n' \<longleftrightarrow>
     (case net_recv env sock 4095 n of
        (Some d, m) \<Rightarrow> d = c \<and> feeds env sock m cs n'
      | (None, _) \<Rightarrow> False)"

lemma recv_loop_feeds:
  "feeds env sock n cs n' \<Longrightarrow>
     recv_loop env sock response n = Some (response @ concat (map c_str cs), n')"
proof (induction cs arbitrary: n response)
  case (Cons c cs)
  then show ?case
    by (subst recv_loop.simps) (auto split: prod.splits option.splits)
qed (simp add: recv_loop.simps)

lemma recv_loop_SomeD:
  assumes "recv_loop env sock response n = Some (r, n')"
  shows "\<exists>cs. feeds env sock n cs n' \<and> r = response @ concat (map c_str cs)"
proof (rule recv_loop.raw_induct [where P = "\<lambda>env sock response n res. case res of (r, n') \<Rightarrow>
    \<exists>cs. feeds env sock n cs n' \<and> r = response @ concat (map c_str cs)", OF _ assms,
    unfolded prod.case])
  fix f env sock response n res
  assume IH: "\<And>env sock response n res. f env sock response n = Some res \<Longrightarrow>
      case res of (r, n') \<Rightarrow> \<exists>cs. feeds env sock n cs n' \<and> r = response @ concat (map c_str cs)"
    and eq: "(case net_recv env sock 4095 n of (None, n') \<Rightarrow> Some (response, n')
      | (Some chunk, n') \<Rightarrow> f env sock (response @ c_str chunk) n') = Some res"
  obtain o1 m where recv: "net_recv env sock 4095 n = (o1, m)" by fastforce
  show "case res of (r, n') \<Rightarrow> \<exists>cs. feeds env sock n cs n' \<and> r = response @ concat (map c_str cs)"
  proof (cases o1)
    case None
    then show ?thesis using eq recv by (auto intro!: exI [of _ "[]"])
  next
    case (Some chunk)
    then have "f env sock (response @ c_str chunk) m = Some res" using eq recv by simp
    from IH [OF this] obtain r n' cs where "res = (r, n')" "feeds env sock m cs n'"
      "r = response @ c_str chunk @ concat (map c_str cs)" by (cases res) auto
    with Some recv show ?thesis by (auto intro!: exI [of _ "chunk # cs"])
  qed
qed

text \<open>The receive loop returns exactly when the peer closes after finitely many chunks.\<close>

lemma recv_loop_iff:
  "recv_loop env sock [] n = Some (r, n') \<longleftrightarrow>
     (\<exists>cs. feeds env sock n cs n' \<and> r = concat (map c_str cs))"
  using recv_loop_SomeD [of env sock "[]" n r n'] by (auto simp: recv_loop_feeds)

lemma http_body_split:
  assumes "find_sub (CRLF @ CRLF) (head @ CRLF @ CRLF @ body) = Some (length head)"
  shows "http_body (head @ CRLF @ CRLF @ body) = body"
  using assms by (simp add: http_body_def CRLF_def)

lemma concat_c_str:
  "(\<And>c. c \<in> set cs \<Longrightarrow> NUL \<notin> set c) \<Longrightarrow> concat (map c_str cs) = concat cs"
  by (induction cs) (auto simp: c_str_id)

lemma GetPresignedPutUrl_cases:
  assumes "GetPresignedPutUrl env name (s3, n) = Some (url, s3', n')"
  obtains "url = []" "s3' = s3"
  | fid tail where "fid \<noteq> []" "s3' = remember_fid name fid s3"
      "url = BuildPublicBaseUrl s3 @ ''/'' @ fid @ ''?collection='' @ s3_bucket s3 @
        ''&filename='' @ name @ tail"
  using assms
  by (auto simp: GetPresignedPutUrl_def Let_def BuildPublicBaseUrl_def remember_fid_def
      split: option.splits prod.splits if_splits)

lemma remember_fid_frame [simp]:
  "s3_public (remember_fid k f s3) = s3_public s3" "s3_bucket (remember_fid k f s3) = s3_bucket s3"
  "s3_master (remember_fid k f s3) = s3_master s3"
  "BuildPublicBaseUrl (remember_fid k f s3) = BuildPublicBaseUrl s3"
  by (simp_all add: remember_fid_def BuildPublicBaseUrl_def)

section \<open>Properties\<close>

text \<open>
  C36: \<open>ParseEndpoint\<close> reads an endpoint \<open>scheme://host:port\<close>, with or without a path
  behind it, into exactly these three parts, for every port an \<open>int\<close> can hold, and the
  defaults play no role; \<open>BuildPublicBaseUrl\<close> of the result prints the endpoint back.
\<close>

theorem ParseEndpoint_roundtrip:
  assumes "CHR '':'' \<notin> set (ep_scheme e)" and "CHR ''/'' \<notin> set (ep_host e)"
    and "path = [] \<or> hd path = CHR ''/''" and "s3_public s3 = e"
  shows "ParseEndpoint (endpoint_url e @ path) ds dp = Inr e \<and>
    ParseEndpoint (BuildPublicBaseUrl s3) ds' dp' = Inr e"
  using assms ParseEndpoint_endpoint_url [of e path ds dp] ParseEndpoint_endpoint_url [of e "[]" ds' dp']
  by (simp add: BuildPublicBaseUrl_def)

abbreviation example_s3 :: S3Client where
  "example_s3 \<equiv>
     \<lparr>s3_master = \<lparr>ep_scheme = ''http'', ep_host = ''127.0.0.1'', ep_port = 9333\<rparr>,
      s3_public = \<lparr>ep_scheme = ''http'', ep_host = ''127.0.0.1'', ep_port = 8080\<rparr>,
      s3_bucket = ''letschat'', s3_access_key = [], s3_secret_key = [],
      object_fid_map = Map.empty\<rparr>"

theorem ParseEndpoint_roundtrip_witness:
  "ParseEndpoint (''http://127.0.0.1:'' @ to_string (8080 :: i32) @ ''/a'') ''ftp'' 1 =
     Inr \<lparr>ep_scheme = ''http'', ep_host = ''127.0.0.1'', ep_port = 8080\<rparr>"
  using ParseEndpoint_roundtrip [of "\<lparr>ep_scheme = ''http'', ep_host = ''127.0.0.1'', ep_port = 8080\<rparr>"
      "''/a''" example_s3 "''ftp''" 1 "''ftp''" 1]
  by (simp add: endpoint_url_def)

text \<open>
  An endpoint without scheme, port and path gets the default scheme and the default port;
  one whose port part does not start with a number makes \<open>ParseEndpoint\<close>, and so the
  constructor of the storage client, throw \<open>std::invalid_argument\<close>.
\<close>

theorem ParseEndpoint_defaults_errors:
  assumes "CHR '':'' \<notin> set host" and "CHR ''/'' \<notin> set host"
  shows "ParseEndpoint host ds dp = Inr \<lparr>ep_scheme = ds, ep_host = host, ep_port = dp\<rparr> \<and>
    (CHR '':'' \<notin> set junk \<and> CHR ''/'' \<notin> set junk \<and> strtol10 junk = None \<longrightarrow>
      ParseEndpoint (host @ '':'' @ junk) ds dp = Inl InvalidArgument \<and>
      S3Client_new (host @ '':'' @ junk) public bucket ak sk = Inl InvalidArgument)"
proof (intro conjI impI)
  show "ParseEndpoint host ds dp = Inr \<lparr>ep_scheme = ds, ep_host = host, ep_port = dp\<rparr>"
    using assms by (rule ParseEndpoint_plain)
  assume junk: "CHR '':'' \<notin> set junk \<and> CHR ''/'' \<notin> set junk \<and> strtol10 junk = None"
  have scheme: "find_sub ''://'' (host @ '':'' @ junk) = None"
    using find_sub_skip [of "CHR '':''" host "''//''" "'':'' @ junk"] assms junk
      find_sub_skip [of "CHR '':''" junk "''//''" "[]"]
    by (cases junk) auto
  have slash: "find_sub ''/'' (host @ '':'' @ junk) = None"
    using assms junk by (simp add: find_sub_single find_char_None)
  have "rfind_char (CHR '':'') (host @ '':'' @ junk) = Some (length host)"
    using junk rfind_char_last by simp
  then have bad: "ParseEndpoint (host @ '':'' @ junk) ds dp = Inl InvalidArgument" for ds dp
    using scheme slash junk by (simp add: ParseEndpoint_def stoi_def)
  show "ParseEndpoint (host @ '':'' @ junk) ds dp = Inl InvalidArgument" by (rule bad)
  show "S3Client_new (host @ '':'' @ junk) public bucket ak sk = Inl InvalidArgument"
    by (simp add: S3Client_new_def bad [simplified])
qed

theorem ParseEndpoint_defaults_errors_witness:
  "ParseEndpoint ''weed'' ''http'' 9333 =
     Inr \<lparr>ep_scheme = ''http'', ep_host = ''weed'', ep_port = 9333\<rparr> \<and>
   S3Client_new ''weed:'' ''x'' ''b'' [] [] = Inl InvalidArgument"
  using ParseEndpoint_defaults_errors [of "''weed''" "''http''" 9333 "[]" "''x''" "''b''" "[]" "[]"]
  by (simp add: strtol10_def)

text \<open>
  From a JSON answer in which the key is first followed by a string value,
  \<open>ExtractJsonValue\<close> returns that value whatever stands before and after it.
\<close>

theorem ExtractJsonValue_finds:
  assumes "QUOTE \<notin> set v"
    and "\<And>j. j < length pre \<Longrightarrow> \<not> prefix (QUOTE # key @ [QUOTE, CHR '':'', QUOTE])
      (drop j (pre @ (QUOTE # key @ [QUOTE, CHR '':'', QUOTE]) @ v @ QUOTE # post))"
  shows "ExtractJsonValue (pre @ (QUOTE # key @ [QUOTE, CHR '':'', QUOTE]) @ v @ QUOTE # post) key = v"
  using find_sub_at [OF assms(2)] assms(1) by (intro ExtractJsonValue_string) auto

theorem ExtractJsonValue_finds_witness:
  "ExtractJsonValue (''{'' @ (QUOTE # ''fid'' @ [QUOTE, CHR '':'', QUOTE]) @ ''3,01637037d6'' @
     QUOTE # ''}'') ''fid'' = ''3,01637037d6''"
  by (rule ExtractJsonValue_finds) (auto simp: QUOTE_def)

text \<open>
  When the storage client hands out an upload URL for an object, the file id in it is the
  one it remembers, the download URL it gives next for that object is the upload URL's prefix
  (same base, same file id, same collection), and the download URLs of other objects are
  untouched; when it hands out no URL, its table is unchanged.
\<close>

theorem upload_download_agree:
  assumes "GetPresignedPutUrl env name (s3, n) = Some (url, s3', n')"
  shows "(url = [] \<and> s3' = s3) \<or>
    (\<exists>fid. fid \<noteq> [] \<and> find_fid s3' name = Some fid \<and>
       GetDownloadUrl name s3' = BuildPublicBaseUrl s3 @ ''/'' @ fid @ ''?collection='' @ s3_bucket s3 \<and>
       prefix (GetDownloadUrl name s3' @ ''&filename='' @ name) url \<and>
       (\<forall>other. other \<noteq> name \<longrightarrow> GetDownloadUrl other s3' = GetDownloadUrl other s3))"
  using assms
proof (rule GetPresignedPutUrl_cases)
  fix fid tail
  assume fid: "fid \<noteq> []" and s3': "s3' = remember_fid name fid s3"
    and url: "url = BuildPublicBaseUrl s3 @ ''/'' @ fid @ ''?collection='' @ s3_bucket s3 @
        ''&filename='' @ name @ tail"
  have dl: "GetDownloadUrl name s3' =
      BuildPublicBaseUrl s3 @ ''/'' @ fid @ ''?collection='' @ s3_bucket s3"
    using fid by (simp add: GetDownloadUrl_def s3' fids.look_put_same)
  moreover have "prefix (GetDownloadUrl name s3' @ ''&filename='' @ name) url"
    by (simp add: dl url)
  moreover have "GetDownloadUrl other s3' = GetDownloadUrl other s3" if "other \<noteq> name" for other
    using that by (simp add: GetDownloadUrl_def Let_def s3' fids.look_put_other)
  ultimately show ?thesis using fid s3' fids.look_put_same by blast
qed simp

text \<open>A network whose connections deliver a given list of chunks and then close.\<close>

definition chunk_env :: "string list net_env" where
  "chunk_env = \<lparr>net_socket = (\<lambda>n. (3, n)), net_gethostbyname = (\<lambda>h n. (Some [127, 0, 0, 1], n)),
     net_connect = (\<lambda>s a p n. (0, n)), net_send = (\<lambda>s r n. n),
     net_recv = (\<lambda>s k n. case n of [] \<Rightarrow> (None, []) | c # cs \<Rightarrow> (Some c, cs)),
     net_close = (\<lambda>s n. n)\<rparr>"

lemma chunk_env_send [simp]: "net_send chunk_env s r cs = cs"
  by (simp add: chunk_env_def)

lemma chunk_env_feeds: "feeds chunk_env s cs cs []"
  by (induction cs) (auto simp: chunk_env_def)

lemma chunk_env_HttpGet:
  "HttpGet chunk_env host port path cs = Some (http_body (concat (map c_str cs)), [])"
  using recv_loop_feeds [OF chunk_env_feeds [of 3 cs], of "[]"]
  by (simp add: HttpGet_def chunk_env_def)

abbreviation assign_answer :: string where
  "assign_answer \<equiv> ''{'' @ QUOTE # ''fid'' @ [QUOTE, CHR '':'', QUOTE] @ ''3,01'' @ QUOTE # ''}''"

theorem upload_download_agree_witness:
  "\<exists>url s3'. GetPresignedPutUrl chunk_env ''1/a.png'' (example_s3, [assign_answer]) =
      Some (url, s3', []) \<and> url \<noteq> [] \<and> prefix (GetDownloadUrl ''1/a.png'' s3') url"
proof -
  have fid: "ExtractJsonValue assign_answer ''fid'' = ''3,01''"
    by (simp add: ExtractJsonValue_def QUOTE_def substr_to_def find_from_def)
  have "http_body (concat (map c_str [assign_answer])) = assign_answer"
    by (simp add: http_body_def QUOTE_def c_str_def NUL_def CRLF_def)
  then obtain url s3' where get: "GetPresignedPutUrl chunk_env ''1/a.png''
      (example_s3, [assign_answer]) = Some (url, s3', [])" and url: "url \<noteq> []"
    using fid by (auto simp: GetPresignedPutUrl_def chunk_env_HttpGet Let_def)
  from upload_download_agree [OF get] url show ?thesis
    using get by (auto simp: append_prefixD)
qed

text \<open>
  C34: \<open>HttpGet\<close> returns the part of the answer behind the first blank line, however the
  network cuts it into \<open>recv\<close> chunks, as long as the answer holds no zero byte; it returns at
  all exactly when the connection fails or the peer closes it after finitely many chunks.
\<close>

theorem HttpGet_body:
  assumes "net_socket env n = (sock, n1)" and "0 \<le> sock"
    and "net_gethostbyname env (c_str host) n1 = (Some addr, n2)"
    and "net_connect env sock addr (ucast port) n2 = (rc, n3)" and "0 \<le> rc"
  shows "(HttpGet env host port path n \<noteq> None \<longleftrightarrow>
      (\<exists>cs n4. feeds env sock (net_send env sock (http_request host path) n3) cs n4)) \<and>
    (feeds env sock (net_send env sock (http_request host path) n3) cs n4 \<and>
     concat cs = head @ CRLF @ CRLF @ body \<and> NUL \<notin> set (concat cs) \<and>
     find_sub (CRLF @ CRLF) (concat cs) = Some (length head) \<longrightarrow>
     HttpGet env host port path n = Some (body, net_close env sock n4))"
proof (intro conjI impI)
  let ?n = "net_send env sock (http_request host path) n3"
  have get: "HttpGet env host port path n = (case recv_loop env sock [] ?n of None \<Rightarrow> None
      | Some (response, n4) \<Rightarrow> Some (http_body response, net_close env sock n4))"
    using assms by (simp add: HttpGet_def)
  have "recv_loop env sock [] ?n \<noteq> None \<longleftrightarrow> (\<exists>cs n4. feeds env sock ?n cs n4)"
    using recv_loop_iff [of env sock ?n] by fast
  then show "HttpGet env host port path n \<noteq> None \<longleftrightarrow> (\<exists>cs n4. feeds env sock ?n cs n4)"
    unfolding get by (auto split: option.splits)
  assume a: "feeds env sock ?n cs n4 \<and> concat cs = head @ CRLF @ CRLF @ body \<and>
      NUL \<notin> set (concat cs) \<and> find_sub (CRLF @ CRLF) (concat cs) = Some (length head)"
  then have "concat (map c_str cs) = concat cs" by (intro concat_c_str) auto
  with a have "recv_loop env sock [] ?n = Some (head @ CRLF @ CRLF @ body, n4)"
    using recv_loop_feeds [of env sock ?n cs n4 "[]"] by simp
  moreover have "http_body (head @ CRLF @ CRLF @ body) = body"
    using a by (intro http_body_split) metis
  ultimately show "HttpGet env host port path n = Some (body, net_close env sock n4)"
    unfolding get by simp
qed

theorem HttpGet_body_witness:
  "HttpGet chunk_env ''h'' 9333 ''/dir/status'' [''HTTP/1.1 200 OK'' @ [CHR 0x0D], [CHR 0x0A, CHR 0x0D], CHR 0x0A # ''{}''] =
     Some (''{}'', [])"
proof -
  let ?cs = "[''HTTP/1.1 200 OK'' @ [CHR 0x0D], [CHR 0x0A, CHR 0x0D], CHR 0x0A # ''{}'']"
  have sock: "net_socket chunk_env ?cs = (3, ?cs)"
    and dns: "net_gethostbyname chunk_env (c_str ''h'') ?cs = (Some [127, 0, 0, 1], ?cs)"
    and conn: "net_connect chunk_env 3 [127, 0, 0, 1] (ucast (9333 :: i32)) ?cs = (0, ?cs)"
    and close: "net_close chunk_env 3 [] = []"
    by (simp_all add: chunk_env_def)
  have "HttpGet chunk_env ''h'' 9333 ''/dir/status'' ?cs = Some (''{}'', net_close chunk_env 3 [])"
    by (rule HttpGet_body [OF sock _ dns conn, of "''/dir/status''" ?cs "[]" "''HTTP/1.1 200 OK''" "''{}''",
          THEN conjunct2, THEN mp])
      (simp_all add: chunk_env_feeds CRLF_def NUL_def del: feeds.simps)
  then show ?thesis by (simp add: close)
qed

end
