(* ===== verification/Conn_Pool.thy ===== *)
theory Conn_Pool
  imports Prelude "HOL-Library.Multiset"
begin

text \<open>
  What \<open>DbPool\<close> and \<open>RedisPool\<close> have in common. The two classes run the same algorithm on
  different handles, so each of them provides its critical sections as a \<open>pool_ops\<close> record
  and this theory composes them: \<open>acquire_run\<close> is the loop of \<open>Acquire\<close> for one thread,
  \<open>pool_step\<close> the interleaving of any number of threads at the points where the mutex is
  free, \<open>with_guard\<close> the scope of a \<open>ConnGuard\<close>.

  The laws of the critical sections are the locale \<open>pool_laws\<close>, under which the invariant of
  the interleaved pool is proved once; the laws that a scope needs are the locale
  \<open>guard_laws\<close>. Both are interpreted in \<open>Db_Pool\<close> and in \<open>Redis_Pool\<close>.
\<close>

section \<open>Critical sections\<close>

text \<open>A connection handle is the address of a \<open>PGconn\<close> or of a \<open>redisContext\<close>.\<close>

type_synonym conn = nat

text \<open>How one turn of the loop in \<open>Acquire\<close> ends while the mutex is held.\<close>

datatype turn =
    Take conn    \<comment> \<open>return a guard for this connection\<close>
  | Try_create   \<comment> \<open>unlock and call \<open>CreateConn\<close>\<close>
  | Block        \<comment> \<open>wait on the condition variable\<close>

record ('p, 'w) pool_ops =
  po_turn :: "'p \<Rightarrow> 'w \<Rightarrow> turn \<times> 'p \<times> 'w"
  po_connect :: "'p \<Rightarrow> 'w \<Rightarrow> conn option \<times> 'w"
  po_connected :: "conn option \<Rightarrow> 'p \<Rightarrow> turn \<times> 'p"
  po_release :: "conn \<Rightarrow> 'p \<times> 'w \<Rightarrow> 'p \<times> 'w"
  po_idle :: "'p \<Rightarrow> conn list"
  po_total :: "'p \<Rightarrow> nat"
  po_max :: "'p \<Rightarrow> nat"

section \<open>Acquire for one thread\<close>

text \<open>
  \<open>others\<close> is what other threads do to the pool while the mutex is released around
  \<open>CreateConn\<close>; the list \<open>wakes\<close> has one entry for each time the condition variable wakes
  this thread before its deadline, with what other threads did meanwhile. The deadline is
  finite, so the list is; when it is used up the next wait times out and the result is the
  null guard.
\<close>

fun acquire_run ::
  "('p, 'w) pool_ops \<Rightarrow> ('p \<times> 'w \<Rightarrow> 'p \<times> 'w) \<Rightarrow> ('p \<times> 'w \<Rightarrow> 'p \<times> 'w) list \<Rightarrow> 'p \<times> 'w \<Rightarrow>
   conn option \<times> ('p \<times> 'w)" where
  "acquire_run ops others wakes (p, w) =
     (let wait = (\<lambda>st. case wakes of
                     [] \<Rightarrow> (None, st)
                   | f # fs \<Rightarrow> acquire_run ops others fs (f st))
      in case po_turn ops p w of
           (Take c, p1, w1) \<Rightarrow> (Some c, (p1, w1))
         | (Block, p1, w1) \<Rightarrow> wait (p1, w1)
         | (Try_create, p1, w1) \<Rightarrow>
             (case po_connect ops p1 w1 of (r, w2) \<Rightarrow>
                case others (p1, w2) of (p2, w3) \<Rightarrow>
                  case po_connected ops r p2 of
                    (Take c, p3) \<Rightarrow> (Some c, (p3, w3))
                  | (_, p3) \<Rightarrow> wait (p3, w3)))"

lemma acquire_run_Take:
  "po_turn ops p w = (Take c, p1, w1) \<Longrightarrow> acquire_run ops others wakes (p, w) = (Some c, (p1, w1))"
  by (simp add: Let_def)

lemma acquire_run_created:
  "po_turn ops p w = (Try_create, p1, w1) \<Longrightarrow> po_connect ops p1 w1 = (r, w2) \<Longrightarrow>
   others (p1, w2) = (p2, w3) \<Longrightarrow> po_connected ops r p2 = (Take c, p3) \<Longrightarrow>
   acquire_run ops others wakes (p, w) = (Some c, (p3, w3))"
  by (simp add: Let_def)

text \<open>What neither the critical sections nor the other threads change, \<open>Acquire\<close> keeps.\<close>

lemma acquire_run_world_turn:
  assumes turn: "\<forall>p w t p' w'. po_turn ops p w = (t, p', w') \<longrightarrow> I w' = I w"
    and conn: "\<forall>p w c w'. po_connect ops p w = (c, w') \<longrightarrow> I w' = I w"
    and oth: "\<forall>st. I (snd (others st)) = I (snd st)"
  shows "(\<exists>c st1. acquire_run ops others wakes st = (Some c, st1) \<and> I (snd st1) = I (snd st)) \<or>
    (\<exists>st1. acquire_run ops others wakes st =
        (case wakes of [] \<Rightarrow> (None, st1) | f # fs \<Rightarrow> acquire_run ops others fs (f st1)) \<and>
      I (snd st1) = I (snd st))"
proof -
  obtain p w where st: "st = (p, w)" by (cases st)
  obtain t p1 w1 where t: "po_turn ops p w = (t, p1, w1)" by (metis prod_cases3)
  note I1 = turn [rule_format, OF t]
  show ?thesis
  proof (cases t)
    case (Take c)
    with t I1 st show ?thesis by (intro disjI1) (auto simp: Let_def)
  next
    case Block
    with t I1 st show ?thesis by (intro disjI2 exI [of _ "(p1, w1)"]) (simp add: Let_def)
  next
    case Try_create
    obtain r w2 where c: "po_connect ops p1 w1 = (r, w2)" by fastforce
    obtain p2 w3 where ot: "others (p1, w2) = (p2, w3)" by fastforce
    obtain u p3 where d: "po_connected ops r p2 = (u, p3)" by fastforce
    have "I w3 = I w" using oth [rule_format, of "(p1, w2)"] conn [rule_format, OF c] I1 ot by simp
    then show ?thesis using t Try_create c ot d st
      by (cases u) (auto simp: Let_def intro: exI [of _ "(p3, w3)"])
  qed
qed

lemma acquire_run_world:
  fixes I :: "'w \<Rightarrow> 'x"
  assumes "acquire_run ops others wakes st = (r, st')"
    and turn: "\<forall>p w t p' w'. po_turn ops p w = (t, p', w') \<longrightarrow> I w' = I w"
    and conn: "\<forall>p w c w'. po_connect ops p w = (c, w') \<longrightarrow> I w' = I w"
    and oth: "\<forall>st. I (snd (others st)) = I (snd st)"
    and wak: "\<And>f st. f \<in> set wakes \<Longrightarrow> I (snd (f st)) = I (snd st)"
  shows "I (snd st') = I (snd st)"
  using assms(1) wak
proof (induction wakes arbitrary: st)
  case Nil
  from acquire_run_world_turn [where ops = ops and I = I and others = others, OF turn conn oth, where wakes = "[]" and st = st] Nil show ?case by auto
next
  case (Cons f fs)
  from acquire_run_world_turn [where ops = ops and I = I and others = others, OF turn conn oth, where wakes = "f # fs" and st = st]
  consider c st1 where "acquire_run ops others (f # fs) st = (Some c, st1)" "I (snd st1) = I (snd st)"
    | st1 where "acquire_run ops others (f # fs) st = acquire_run ops others fs (f st1)"
      "I (snd st1) = I (snd st)"
    by auto
  then show ?case
  proof cases
    case 1
    with Cons.prems show ?thesis by simp
  next
    case 2
    with Cons.IH [of "f st1"] Cons.prems show ?thesis by simp
  qed
qed

section \<open>The scope of a guard\<close>

text \<open>
  \<open>auto g = pool_->Acquire(); if (!g || !g->conn) return dflt; body\<close>, with the release by
  the guard's destructor when the scope ends, whichever way it ends.
\<close>

definition with_guard ::
  "('s \<Rightarrow> conn option \<times> 's) \<Rightarrow> (conn \<Rightarrow> 's \<Rightarrow> 's) \<Rightarrow> 'a \<Rightarrow> (conn \<Rightarrow> 's \<Rightarrow> 'a \<times> 's) \<Rightarrow> 's \<Rightarrow> 'a \<times> 's"
  where
  "with_guard acquire release dflt body s =
     (case acquire s of
        (None, s1) \<Rightarrow> (dflt, s1)
      | (Some c, s1) \<Rightarrow> (case body c s1 of (r, s2) \<Rightarrow> (r, release c s2)))"

text \<open>
  \<open>lent s\<close> counts the connections out of the pool, \<open>ok\<close> is the invariant of the pool in the
  state. A scope that acquires and releases hands back what it took.
\<close>

locale guard_laws =
  fixes acquire :: "'s \<Rightarrow> conn option \<times> 's" and release :: "conn \<Rightarrow> 's \<Rightarrow> 's"
    and ok :: "'s \<Rightarrow> bool" and lent :: "'s \<Rightarrow> nat" and same_pool :: "'s \<Rightarrow> 's \<Rightarrow> bool"
  assumes acquire_Some: "ok s \<Longrightarrow> acquire s = (Some c, s') \<Longrightarrow> ok s' \<and> lent s' = Suc (lent s)"
    and acquire_None: "ok s \<Longrightarrow> acquire s = (None, s') \<Longrightarrow> ok s' \<and> lent s' = lent s"
    and release_ok: "ok s \<Longrightarrow> 0 < lent s \<Longrightarrow> ok (release c s) \<and> lent (release c s) = lent s - 1"
    and same_pool_ok: "same_pool s s' \<Longrightarrow> ok s \<Longrightarrow> ok s' \<and> lent s' = lent s"
begin

lemma with_guard_balanced:
  assumes "ok s" and "\<And>c s1 r s2. body c s1 = (r, s2) \<Longrightarrow> same_pool s1 s2"
    and "with_guard acquire release dflt body s = (r, s')"
  shows "ok s' \<and> lent s' = lent s"
proof -
  obtain g s1 where g: "acquire s = (g, s1)" by fastforce
  show ?thesis
  proof (cases g)
    case None
    with assms(1,3) g acquire_None show ?thesis by (auto simp: with_guard_def)
  next
    case (Some c)
    obtain r2 s2 where b: "body c s1 = (r2, s2)" by fastforce
    from assms(1) g Some have "ok s1 \<and> lent s1 = Suc (lent s)" by (auto dest: acquire_Some)
    with assms(2) [OF b] have "ok s2" "lent s2 = Suc (lent s)" by (auto dest: same_pool_ok)
    moreover have "s' = release c s2"
      using assms(3) g Some b by (simp add: with_guard_def)
    ultimately show ?thesis using release_ok [of s2 c] by simp
  qed
qed

end

lemma with_guard_None:
  "acquire s = (None, s1) \<Longrightarrow> with_guard acquire release dflt body s = (dflt, s1)"
  by (simp add: with_guard_def)

lemma with_guard_Some:
  "acquire s = (Some c, s1) \<Longrightarrow> body c s1 = (r, s2) \<Longrightarrow>
   with_guard acquire release dflt body s = (r, release c s2)"
  by (simp add: with_guard_def)

lemmas with_guard_simps [guard_simps] = with_guard_None with_guard_Some

section \<open>Many threads\<close>

text \<open>
  Where a thread is: outside the pool, about to take the mutex at the top of the loop, inside
  \<open>CreateConn\<close> with the mutex released, back from it and about to take the mutex again,
  waiting on the condition variable, or holding a guard.
\<close>

datatype phase =
    Outside
  | Entering
  | Creating
  | Created "conn option"
  | Waiting
  | Holding conn

record ('p, 'w) pool_sys =
  ps_pool :: 'p
  ps_world :: 'w
  ps_phases :: "phase list"

fun conns_of :: "phase \<Rightarrow> conn multiset" where
  "conns_of (Holding c) = {#c#}"
| "conns_of (Created (Some c)) = {#c#}"
| "conns_of _ = {#}"

fun holds :: "phase \<Rightarrow> nat" where
  "holds (Holding _) = 1"
| "holds _ = 0"

fun pends :: "phase \<Rightarrow> nat" where
  "pends Creating = 1"
| "pends (Created _) = 1"
| "pends _ = 0"

definition lent_conns :: "('p, 'w) pool_sys \<Rightarrow> nat" where
  "lent_conns s = sum_list (map holds (ps_phases s))"

definition pending_creates :: "('p, 'w) pool_sys \<Rightarrow> nat" where
  "pending_creates s = sum_list (map pends (ps_phases s))"

text \<open>Every connection that is alive, as often as it is owned: by the pool or by a thread.\<close>

definition owned :: "('p, 'w) pool_ops \<Rightarrow> ('p, 'w) pool_sys \<Rightarrow> conn multiset" where
  "owned ops s = mset (po_idle ops (ps_pool s)) + sum_list (map conns_of (ps_phases s))"

text \<open>
  One step of one thread, or of the outside world (which may change the health of any
  connection at any time). The only assumption about the world is the allocator's: a new
  connection has an address that no live connection has.
\<close>

inductive pool_step ::
  "('p, 'w) pool_ops \<Rightarrow> ('p, 'w) pool_sys \<Rightarrow> ('p, 'w) pool_sys \<Rightarrow> bool" for ops where
  call: "i < length (ps_phases s) \<Longrightarrow> ps_phases s ! i = Outside \<Longrightarrow>
    pool_step ops s (s\<lparr>ps_phases := (ps_phases s)[i := Entering]\<rparr>)"
| take: "i < length (ps_phases s) \<Longrightarrow> ps_phases s ! i = Entering \<Longrightarrow>
    po_turn ops (ps_pool s) (ps_world s) = (Take c, p', w') \<Longrightarrow>
    pool_step ops s (s\<lparr>ps_pool := p', ps_world := w', ps_phases := (ps_phases s)[i := Holding c]\<rparr>)"
| create: "i < length (ps_phases s) \<Longrightarrow> ps_phases s ! i = Entering \<Longrightarrow>
    po_turn ops (ps_pool s) (ps_world s) = (Try_create, p', w') \<Longrightarrow>
    pool_step ops s (s\<lparr>ps_pool := p', ps_world := w', ps_phases := (ps_phases s)[i := Creating]\<rparr>)"
| block: "i < length (ps_phases s) \<Longrightarrow> ps_phases s ! i = Entering \<Longrightarrow>
    po_turn ops (ps_pool s) (ps_world s) = (Block, p', w') \<Longrightarrow>
    pool_step ops s (s\<lparr>ps_pool := p', ps_world := w', ps_phases := (ps_phases s)[i := Waiting]\<rparr>)"
| connect: "i < length (ps_phases s) \<Longrightarrow> ps_phases s ! i = Creating \<Longrightarrow>
    po_connect ops (ps_pool s) (ps_world s) = (r, w') \<Longrightarrow>
    (case r of Some c \<Rightarrow> c \<notin># owned ops s | None \<Rightarrow> True) \<Longrightarrow>
    pool_step ops s (s\<lparr>ps_world := w', ps_phases := (ps_phases s)[i := Created r]\<rparr>)"
| created: "i < length (ps_phases s) \<Longrightarrow> ps_phases s ! i = Created r \<Longrightarrow>
    po_connected ops r (ps_pool s) = (Take c, p') \<Longrightarrow>
    pool_step ops s (s\<lparr>ps_pool := p', ps_phases := (ps_phases s)[i := Holding c]\<rparr>)"
| not_created: "i < length (ps_phases s) \<Longrightarrow> ps_phases s ! i = Created r \<Longrightarrow>
    po_connected ops r (ps_pool s) = (t, p') \<Longrightarrow> (\<And>c. t \<noteq> Take c) \<Longrightarrow>
    pool_step ops s (s\<lparr>ps_pool := p', ps_phases := (ps_phases s)[i := Waiting]\<rparr>)"
| wake: "i < length (ps_phases s) \<Longrightarrow> ps_phases s ! i = Waiting \<Longrightarrow>
    pool_step ops s (s\<lparr>ps_phases := (ps_phases s)[i := Entering]\<rparr>)"
| timeout: "i < length (ps_phases s) \<Longrightarrow> ps_phases s ! i = Waiting \<Longrightarrow>
    pool_step ops s (s\<lparr>ps_phases := (ps_phases s)[i := Outside]\<rparr>)"
| release: "i < length (ps_phases s) \<Longrightarrow> ps_phases s ! i = Holding c \<Longrightarrow>
    po_release ops c (ps_pool s, ps_world s) = (p', w') \<Longrightarrow>
    pool_step ops s (s\<lparr>ps_pool := p', ps_world := w', ps_phases := (ps_phases s)[i := Outside]\<rparr>)"
| world: "pool_step ops s (s\<lparr>ps_world := w'\<rparr>)"

inductive pool_reach ::
  "('p, 'w) pool_ops \<Rightarrow> ('p, 'w) pool_sys \<Rightarrow> ('p, 'w) pool_sys \<Rightarrow> bool" for ops s0 where
  start: "pool_reach ops s0 s0"
| step: "pool_reach ops s0 s \<Longrightarrow> pool_step ops s t \<Longrightarrow> pool_reach ops s0 t"

text \<open>
  The runs in which at most \<open>k\<close> threads at a time are between the test of \<open>max_pool_\<close> and the
  moment they take the mutex again after \<open>CreateConn\<close>.
\<close>

inductive capped_reach ::
  "('p, 'w) pool_ops \<Rightarrow> nat \<Rightarrow> ('p, 'w) pool_sys \<Rightarrow> ('p, 'w) pool_sys \<Rightarrow> bool" for ops k s0 where
  start: "capped_reach ops k s0 s0"
| step: "capped_reach ops k s0 s \<Longrightarrow> pool_step ops s t \<Longrightarrow> pending_creates t \<le> k \<Longrightarrow>
    capped_reach ops k s0 t"

lemma capped_reach_reach: "capped_reach ops k s0 s \<Longrightarrow> pool_reach ops s0 s"
  by (induction rule: capped_reach.induct) (auto intro: pool_reach.intros)

text \<open>The start: a constructed pool and \<open>N\<close> threads outside it.\<close>

definition pool_start :: "'p \<Rightarrow> 'w \<Rightarrow> nat \<Rightarrow> ('p, 'w) pool_sys" where
  "pool_start p w N = \<lparr>ps_pool = p, ps_world = w, ps_phases = replicate N Outside\<rparr>"

definition pool_inv :: "('p, 'w) pool_ops \<Rightarrow> nat \<Rightarrow> nat \<Rightarrow> ('p, 'w) pool_sys \<Rightarrow> bool" where
  "pool_inv ops N mx s \<longleftrightarrow>
     length (ps_phases s) = N \<and> po_max ops (ps_pool s) = mx \<and>
     po_total ops (ps_pool s) = length (po_idle ops (ps_pool s)) + lent_conns s \<and>
     po_total ops (ps_pool s) + pending_creates s < mx + N \<and>
     (\<forall>c. count (owned ops s) c \<le> 1)"

lemma sum_list_map_update:
  fixes f :: "'a \<Rightarrow> 'b::comm_monoid_add"
  shows "i < length xs \<Longrightarrow>
    sum_list (map f (xs[i := y])) + f (xs ! i) = sum_list (map f xs) + f y"
proof (induction xs arbitrary: i)
  case (Cons x xs)
  then show ?case
  proof (cases i)
    case (Suc k)
    then show ?thesis using Cons.IH [of k] Cons.prems by (simp add: ac_simps)
  qed (simp add: ac_simps)
qed simp

lemma pends_le: "sum_list (map pends ps) \<le> length ps"
proof (induction ps)
  case (Cons x xs)
  have "pends x \<le> 1" by (cases x rule: pends.cases) auto
  with Cons show ?case by simp
qed simp

lemma conns_le: "size (sum_list (map conns_of ps)) \<le> sum_list (map holds ps) + sum_list (map pends ps)"
proof (induction ps)
  case (Cons x xs)
  have "size (conns_of x) \<le> holds x + pends x" by (cases x rule: conns_of.cases) auto
  with Cons show ?case by simp
qed simp

text \<open>The thread that moves is the only one whose phase changes.\<close>

lemma pending_creates_update:
  assumes "i < length (ps_phases s)" and "ps_phases s' = (ps_phases s)[i := b]"
  shows "pending_creates s' + pends (ps_phases s ! i) = pending_creates s + pends b"
  using sum_list_map_update [OF assms(1), of pends b] by (simp add: pending_creates_def assms(2))

lemma sum_list_replicate_0 [simp]: "sum_list (replicate n (0 :: 'a::comm_monoid_add)) = 0"
  by (induction n) auto

text \<open>The invariant of a pool used by one thread at a time, and the connections out of it.\<close>

definition pool_ok :: "('p, 'w) pool_ops \<Rightarrow> 'p \<Rightarrow> bool" where
  "pool_ok ops p \<longleftrightarrow> length (po_idle ops p) \<le> po_total ops p \<and> po_total ops p \<le> po_max ops p \<and>
     po_max ops p < 2 ^ 64"

definition pool_lent :: "('p, 'w) pool_ops \<Rightarrow> 'p \<Rightarrow> nat" where
  "pool_lent ops p = po_total ops p - length (po_idle ops p)"

text \<open>The thread-moving rules at a known place of the phase list, for building runs.\<close>

abbreviation sys_at :: "'p \<Rightarrow> 'w \<Rightarrow> phase list \<Rightarrow> ('p, 'w) pool_sys" where
  "sys_at p w phs \<equiv> \<lparr>ps_pool = p, ps_world = w, ps_phases = phs\<rparr>"

lemma step_call_at: "pool_step ops (sys_at p w (xs @ Outside # ys)) (sys_at p w (xs @ Entering # ys))"
  using pool_step.call [of "length xs" "sys_at p w (xs @ Outside # ys)" ops] by simp

lemma step_take_at:
  "po_turn ops p w = (Take c, p', w') \<Longrightarrow>
   pool_step ops (sys_at p w (xs @ Entering # ys)) (sys_at p' w' (xs @ Holding c # ys))"
  using pool_step.take [of "length xs" "sys_at p w (xs @ Entering # ys)" ops c p' w'] by simp

lemma step_create_at:
  "po_turn ops p w = (Try_create, p', w') \<Longrightarrow>
   pool_step ops (sys_at p w (xs @ Entering # ys)) (sys_at p' w' (xs @ Creating # ys))"
  using pool_step.create [of "length xs" "sys_at p w (xs @ Entering # ys)" ops p' w'] by simp

lemma step_connect_at:
  "po_connect ops p w = (Some c, w') \<Longrightarrow> c \<notin># owned ops (sys_at p w (xs @ Creating # ys)) \<Longrightarrow>
   pool_step ops (sys_at p w (xs @ Creating # ys)) (sys_at p w' (xs @ Created (Some c) # ys))"
  using pool_step.connect [of "length xs" "sys_at p w (xs @ Creating # ys)" ops "Some c" w'] by simp

lemma step_created_at:
  "po_connected ops (Some c) p = (Take c, p') \<Longrightarrow>
   pool_step ops (sys_at p w (xs @ Created (Some c) # ys)) (sys_at p' w (xs @ Holding c # ys))"
  using pool_step.created [of "length xs" "sys_at p w (xs @ Created (Some c) # ys)" "Some c" ops c p'] by simp

section \<open>The laws and the invariant\<close>

locale pool_laws =
  fixes ops :: "('p, 'w) pool_ops"
  assumes turn_Take: "po_turn ops p w = (Take c, p', w') \<Longrightarrow>
      length (po_idle ops p) \<le> po_total ops p \<Longrightarrow>
      \<exists>dead. po_idle ops p = dead @ c # po_idle ops p' \<and>
        po_total ops p' = po_total ops p - length dead \<and> po_max ops p' = po_max ops p"
    and turn_other: "po_turn ops p w = (t, p', w') \<Longrightarrow> (\<And>c. t \<noteq> Take c) \<Longrightarrow>
      length (po_idle ops p) \<le> po_total ops p \<Longrightarrow>
      po_idle ops p' = [] \<and> po_total ops p' = po_total ops p - length (po_idle ops p) \<and>
      po_max ops p' = po_max ops p \<and> (t = Try_create \<longleftrightarrow> po_total ops p' < po_max ops p')"
    and connected_Some: "po_connected ops (Some c) p = (t, p') \<Longrightarrow> po_total ops p < 2 ^ 64 - 1 \<Longrightarrow>
      t = Take c \<and> po_idle ops p' = po_idle ops p \<and> po_total ops p' = Suc (po_total ops p) \<and>
      po_max ops p' = po_max ops p"
    and connected_None: "po_connected ops None p = (Block, p)"
    and release_back: "po_release ops c (p, w) = (p', w') \<Longrightarrow> 0 < po_total ops p \<Longrightarrow>
      po_max ops p' = po_max ops p \<and>
      (po_idle ops p' = po_idle ops p @ [c] \<and> po_total ops p' = po_total ops p \<or>
       po_idle ops p' = po_idle ops p \<and> po_total ops p' = po_total ops p - 1)"
begin

lemma inv_start:
  assumes "po_total ops p = length (po_idle ops p)" and "po_total ops p \<le> po_max ops p"
    and "distinct (po_idle ops p)" and "0 < N"
  shows "pool_inv ops N (po_max ops p) (pool_start p w N)"
  using assms
  by (auto simp: pool_inv_def pool_start_def lent_conns_def pending_creates_def owned_def
      distinct_count_atmost_1)

text \<open>
  A step that only moves thread \<open>i\<close> from phase \<open>a\<close> to phase \<open>b\<close> and the pool from \<open>p\<close>
  to \<open>p'\<close> keeps the invariant when the books balance.
\<close>

lemma inv_move:
  assumes inv: "pool_inv ops N mx s" and i: "i < length (ps_phases s)" "ps_phases s ! i = a"
    and max: "po_max ops p' = mx"
    and total: "po_total ops p' + holds a + length (po_idle ops (ps_pool s)) =
      po_total ops (ps_pool s) + holds b + length (po_idle ops p')"
    and bound: "po_total ops p' + (pending_creates s + pends b) < mx + N + pends a"
    and own: "\<And>c. count (mset (po_idle ops p')) c + count (conns_of b) c + count (owned ops s) c \<le>
      1 + count (mset (po_idle ops (ps_pool s))) c + count (conns_of a) c"
    and s': "ps_pool s' = p'" "ps_phases s' = (ps_phases s)[i := b]"
  shows "pool_inv ops N mx s'"
proof -
  have h: "lent_conns s' + holds a = lent_conns s + holds b"
    using sum_list_map_update [OF i(1), of holds b] i(2) by (simp add: lent_conns_def s')
  have q: "pending_creates s' + pends a = pending_creates s + pends b"
    using sum_list_map_update [OF i(1), of pends b] i(2) by (simp add: pending_creates_def s')
  have c: "sum_list (map conns_of (ps_phases s')) + conns_of a =
      sum_list (map conns_of (ps_phases s)) + conns_of b"
    using sum_list_map_update [OF i(1), of conns_of b] i(2) by (simp add: s')
  have "count (owned ops s') c \<le> 1" for c
    using own [of c] arg_cong [OF c, of "\<lambda>m. count m c"] by (simp add: owned_def s')
  then show ?thesis
    using inv h q max total bound by (auto simp: pool_inv_def s')
qed

lemma inv_idle_le: "pool_inv ops N mx s \<Longrightarrow> length (po_idle ops (ps_pool s)) \<le> po_total ops (ps_pool s)"
  by (simp add: pool_inv_def)

lemma inv_unfold:
  assumes "pool_inv ops N mx s"
  shows "po_total ops (ps_pool s) = length (po_idle ops (ps_pool s)) + lent_conns s"
    and "po_total ops (ps_pool s) + pending_creates s < mx + N" and "po_max ops (ps_pool s) = mx"
    and "count (owned ops s) c \<le> 1" and "length (ps_phases s) = N"
  using assms by (auto simp: pool_inv_def)

lemma idle_le_owned: "count (mset (po_idle ops (ps_pool s))) c \<le> count (owned ops s) c"
  by (simp add: owned_def)

lemma pending_less:
  assumes "i < length (ps_phases s)" and "pends (ps_phases s ! i) = 0"
  shows "pending_creates s < length (ps_phases s)"
  using sum_list_map_update [OF assms(1), of pends Creating]
    pends_le [of "(ps_phases s)[i := Creating]"] assms(2)
  by (simp add: pending_creates_def)

lemma holding_pos:
  assumes "i < length (ps_phases s)" and "ps_phases s ! i = Holding c"
  shows "0 < lent_conns s"
  using sum_list_map_update [OF assms(1), of holds Outside] assms(2)
  by (simp add: lent_conns_def)

lemma inv_take:
  assumes "pool_inv ops N mx s" and "i < length (ps_phases s)" and "ps_phases s ! i = Entering"
    and turn: "po_turn ops (ps_pool s) (ps_world s) = (Take c, p', w')"
  shows "pool_inv ops N mx (s\<lparr>ps_pool := p', ps_world := w', ps_phases := (ps_phases s)[i := Holding c]\<rparr>)"
proof -
  note I = inv_unfold [OF assms(1)]
  from turn_Take [OF turn inv_idle_le [OF assms(1)]] obtain dead where
    d: "po_idle ops (ps_pool s) = dead @ c # po_idle ops p'"
      "po_total ops p' = po_total ops (ps_pool s) - length dead" "po_max ops p' = po_max ops (ps_pool s)"
    by auto
  show ?thesis
  proof (rule inv_move [OF assms(1-3), where p' = p' and b = "Holding c"])
    show "count (mset (po_idle ops p')) x + count (conns_of (Holding c)) x + count (owned ops s) x \<le>
        1 + count (mset (po_idle ops (ps_pool s))) x + count (conns_of Entering) x" for x
      using I(4) [of x] by (simp add: d)
  qed (use I d in simp_all)
qed

lemma inv_turn_other:
  assumes "pool_inv ops N mx s" and "i < length (ps_phases s)" and "ps_phases s ! i = Entering"
    and turn: "po_turn ops (ps_pool s) (ps_world s) = (t, p', w')"
    and t: "\<And>c. t \<noteq> Take c" and b: "b = (if t = Try_create then Creating else Waiting)"
  shows "pool_inv ops N mx (s\<lparr>ps_pool := p', ps_world := w', ps_phases := (ps_phases s)[i := b]\<rparr>)"
proof -
  note I = inv_unfold [OF assms(1)]
  note d = turn_other [OF turn t inv_idle_le [OF assms(1)]]
  have "pending_creates s < N" using pending_less [OF assms(2)] assms(3) I(5) by simp
  then have "po_total ops p' + (pending_creates s + pends b) < mx + N + pends Entering"
    using d I b by (cases "t = Try_create") auto
  moreover have "count (mset (po_idle ops p')) c + count (conns_of b) c + count (owned ops s) c \<le>
      1 + count (mset (po_idle ops (ps_pool s))) c + count (conns_of Entering) c" for c
    using I(4) [of c] d b by (simp add: trans_le_add1)
  ultimately show ?thesis
    using I d b by (intro inv_move [OF assms(1-3), where p' = p' and b = b]) simp_all
qed

lemma inv_connect:
  assumes "pool_inv ops N mx s" and "i < length (ps_phases s)" and "ps_phases s ! i = Creating"
    and fresh: "case r of Some c \<Rightarrow> c \<notin># owned ops s | None \<Rightarrow> True"
  shows "pool_inv ops N mx (s\<lparr>ps_world := w', ps_phases := (ps_phases s)[i := Created r]\<rparr>)"
proof -
  note I = inv_unfold [OF assms(1)]
  have own: "count (conns_of (Created r)) c + count (owned ops s) c \<le> 1" for c
    using fresh I(4) [of c] by (cases r) (auto simp: not_in_iff)
  show ?thesis
  proof (rule inv_move [OF assms(1-3), where p' = "ps_pool s" and b = "Created r"])
    show "count (mset (po_idle ops (ps_pool s))) c + count (conns_of (Created r)) c +
        count (owned ops s) c \<le> 1 + count (mset (po_idle ops (ps_pool s))) c + count (conns_of Creating) c" for c
      using own [of c] by simp
  qed (use I in simp_all)
qed

lemma inv_created:
  assumes "pool_inv ops N mx s" and "i < length (ps_phases s)" and "ps_phases s ! i = Created (Some c)"
    and small: "mx + N < 2 ^ 64"
    and conn: "po_connected ops (Some c) (ps_pool s) = (t, p')"
  shows "t = Take c \<and> pool_inv ops N mx (s\<lparr>ps_pool := p', ps_phases := (ps_phases s)[i := Holding c]\<rparr>)"
proof -
  note I = inv_unfold [OF assms(1)]
  have "0 < pending_creates s"
    using sum_list_map_update [OF assms(2), of pends Outside] assms(3)
    by (simp add: pending_creates_def)
  then have "po_total ops (ps_pool s) < 2 ^ 64 - 1" using I(2) small by simp
  note d = connected_Some [OF conn this]
  have "pool_inv ops N mx (s\<lparr>ps_pool := p', ps_phases := (ps_phases s)[i := Holding c]\<rparr>)"
  proof (rule inv_move [OF assms(1-3), where p' = p' and b = "Holding c"])
    show "count (mset (po_idle ops p')) x + count (conns_of (Holding c)) x + count (owned ops s) x \<le>
        1 + count (mset (po_idle ops (ps_pool s))) x + count (conns_of (Created (Some c))) x" for x
      using I(4) [of x] d by simp
  qed (use I d in simp_all)
  with d show ?thesis by simp
qed

text \<open>Moves between phases that own nothing and await nothing.\<close>

lemma inv_quiet_move:
  assumes "pool_inv ops N mx s" and "i < length (ps_phases s)" and "ps_phases s ! i = a"
    and "holds a = 0" "holds b = 0" and "pends b = 0" and "conns_of b = {#}"
  shows "pool_inv ops N mx (s\<lparr>ps_phases := (ps_phases s)[i := b]\<rparr>)"
proof -
  note I = inv_unfold [OF assms(1)]
  show ?thesis
  proof (rule inv_move [OF assms(1-3), where p' = "ps_pool s" and b = b])
    show "count (mset (po_idle ops (ps_pool s))) c + count (conns_of b) c + count (owned ops s) c \<le>
        1 + count (mset (po_idle ops (ps_pool s))) c + count (conns_of a) c" for c
      using I(4) [of c] assms(7) by simp
  qed (use I assms in simp_all)
qed

lemma inv_release:
  assumes "pool_inv ops N mx s" and "i < length (ps_phases s)" and "ps_phases s ! i = Holding c"
    and rel: "po_release ops c (ps_pool s, ps_world s) = (p', w')"
  shows "pool_inv ops N mx (s\<lparr>ps_pool := p', ps_world := w', ps_phases := (ps_phases s)[i := Outside]\<rparr>)"
proof -
  note I = inv_unfold [OF assms(1)]
  have pos: "0 < po_total ops (ps_pool s)"
    using I(1) holding_pos [OF assms(2,3)] by simp
  note d = release_back [OF rel pos]
  have total: "po_total ops p' + holds (Holding c) + length (po_idle ops (ps_pool s)) =
      po_total ops (ps_pool s) + holds Outside + length (po_idle ops p')"
    and le: "po_total ops p' \<le> po_total ops (ps_pool s)"
    using d pos by auto
  show ?thesis
  proof (rule inv_move [OF assms(1-3), where p' = p' and b = Outside])
    show "count (mset (po_idle ops p')) x + count (conns_of Outside) x + count (owned ops s) x \<le>
        1 + count (mset (po_idle ops (ps_pool s))) x + count (conns_of (Holding c)) x" for x
      using I(4) [of x] d by auto
  qed (use I d total le in simp_all)
qed

lemma inv_step:
  assumes "pool_step ops s t" and "pool_inv ops N mx s" and "mx + N < 2 ^ 64"
  shows "pool_inv ops N mx t"
  using assms(1)
proof cases
  case (take i c p' w')
  with assms show ?thesis by (simp add: inv_take)
next
  case (create i p' w')
  with inv_turn_other [OF assms(2) create(2-4)] show ?thesis by simp
next
  case (block i p' w')
  with inv_turn_other [OF assms(2) block(2-4)] show ?thesis by simp
next
  case (connect i r w')
  with assms show ?thesis by (simp add: inv_connect)
next
  case (created i r c p')
  show ?thesis
  proof (cases r)
    case None
    with created connected_None show ?thesis by simp
  next
    case (Some d)
    with inv_created [OF assms(2) created(2) created(3) [unfolded Some] assms(3)] created(1,4)
    show ?thesis by auto
  qed
next
  case (not_created i r u p')
  show ?thesis
  proof (cases r)
    case None
    then have "p' = ps_pool s" using not_created(4) connected_None by simp
    then show ?thesis
      using inv_quiet_move [OF assms(2) not_created(2,3), of Waiting] not_created(1) None by simp
  next
    case (Some d)
    with inv_created [OF assms(2) not_created(2) not_created(3) [unfolded Some] assms(3)]
      not_created(4,5) show ?thesis by auto
  qed
next
  case (release i c p' w')
  with assms show ?thesis by (simp add: inv_release)
next
  case (world w')
  with assms(2) show ?thesis
    by (simp add: pool_inv_def lent_conns_def pending_creates_def owned_def)
qed (use assms(2) in \<open>simp_all add: inv_quiet_move\<close>)

lemma inv_reach:
  assumes "pool_reach ops s0 s" and "pool_inv ops N mx s0" and "mx + N < 2 ^ 64"
  shows "pool_inv ops N mx s"
  using assms(1)
proof induction
  case start
  show ?case by (rule assms(2))
next
  case (step s t)
  then show ?case using inv_step assms(3) by blast
qed

text \<open>
  The limit. A thread raises the number of connections that exist or are being opened only in a
  turn that found the counter below the maximum, and then at most \<open>k\<close> threads are connecting.
\<close>

lemma turn_bound:
  assumes "pool_inv ops N mx s" and "po_turn ops (ps_pool s) (ps_world s) = (t, p', w')"
  shows "po_total ops p' \<le> po_total ops (ps_pool s) \<and> (t = Try_create \<longrightarrow> po_total ops p' < mx)"
proof (cases t)
  case (Take c)
  with turn_Take [of "ps_pool s" "ps_world s" c p' w'] assms(2) inv_idle_le [OF assms(1)]
  show ?thesis by auto
qed (use turn_other [OF assms(2) _ inv_idle_le [OF assms(1)]] inv_unfold(3) [OF assms(1)] in auto)

lemma capped_step:
  assumes st: "pool_step ops s t" and inv: "pool_inv ops N mx s" and small: "mx + N < 2 ^ 64"
    and cap: "pending_creates t \<le> k" and le: "po_total ops (ps_pool s) + pending_creates s \<le> mx + k - 1"
  shows "po_total ops (ps_pool t) + pending_creates t \<le> mx + k - 1"
  using st
proof cases
  case (call i)
  with pending_creates_update [of i s t Entering] le show ?thesis by simp
next
  case (take i c p' w')
  with pending_creates_update [of i s t "Holding c"] turn_bound [OF inv take(4)] le show ?thesis by simp
next
  case (create i p' w')
  then have "po_total ops (ps_pool t) < mx" using turn_bound [OF inv create(4)] by simp
  with cap show ?thesis by linarith
next
  case (block i p' w')
  with pending_creates_update [of i s t Waiting] turn_bound [OF inv block(4)] le show ?thesis by simp
next
  case (connect i r w')
  with pending_creates_update [of i s t "Created r"] le show ?thesis by simp
next
  case (created i r c p')
  then obtain d where r: "r = Some d" using connected_None by (cases r) auto
  have "pending_creates t + 1 = pending_creates s"
    using pending_creates_update [of i s t "Holding c"] created by simp
  moreover from this have "po_total ops (ps_pool s) < 2 ^ 64 - 1"
    using inv_unfold(2) [OF inv] small by simp
  ultimately show ?thesis using connected_Some [of d "ps_pool s" "Take c" p'] created r le by simp
next
  case (not_created i r u p')
  then have "p' = ps_pool s \<or> (\<exists>d. r = Some d)" using connected_None by (cases r) auto
  moreover have False if "r = Some d" for d
    using inv_created [OF inv not_created(2) not_created(3) [unfolded that] small not_created(4) [unfolded that]]
      not_created(5) by blast
  ultimately show ?thesis using not_created pending_creates_update [of i s t Waiting] le by auto
next
  case (wake i)
  with pending_creates_update [of i s t Entering] le show ?thesis by simp
next
  case (timeout i)
  with pending_creates_update [of i s t Outside] le show ?thesis by simp
next
  case (release i c p' w')
  have "0 < po_total ops (ps_pool s)"
    using inv_unfold(1) [OF inv] holding_pos [OF release(2,3)] by simp
  from release_back [OF release(4) this] release pending_creates_update [of i s t Outside] le
  show ?thesis by auto
next
  case (world w')
  with le show ?thesis by (simp add: pending_creates_def)
qed

lemma capped_bound:
  assumes "capped_reach ops k s0 s" and "pool_inv ops N mx s0" and "mx + N < 2 ^ 64"
    and "po_total ops (ps_pool s0) + pending_creates s0 \<le> mx + k - 1"
  shows "po_total ops (ps_pool s) + pending_creates s \<le> mx + k - 1"
  using assms(1)
proof induction
  case (step s t)
  from inv_reach [OF capped_reach_reach [OF step.hyps(1)] assms(2,3)] step.IH step.hyps
  show ?case by (blast intro: capped_step assms(3))
qed (rule assms(4))

text \<open>Connections that exist are counted, or belong to a thread that will count them.\<close>

lemma owned_le:
  assumes "pool_inv ops N mx s"
  shows "size (owned ops s) \<le> po_total ops (ps_pool s) + pending_creates s"
  using conns_le [of "ps_phases s"] inv_unfold(1) [OF assms]
  by (simp add: owned_def lent_conns_def pending_creates_def)

lemma inv_exclusive:
  assumes inv: "pool_inv ops N mx s" and i: "i < length (ps_phases s)" "ps_phases s ! i = Holding c"
  shows "c \<notin> set (po_idle ops (ps_pool s)) \<and>
    (\<forall>j < length (ps_phases s). ps_phases s ! j = Holding c \<longrightarrow> j = i)"
proof -
  note I = inv_unfold(4) [OF inv, of c]
  have upd: "sum_list (map conns_of ((ps_phases s)[i := Outside])) + {#c#} =
      sum_list (map conns_of (ps_phases s))"
    using sum_list_map_update [OF i(1), of conns_of Outside] i(2) by simp
  have "Suc (count (sum_list (map conns_of ((ps_phases s)[i := Outside]))) c) =
      count (sum_list (map conns_of (ps_phases s))) c"
    using arg_cong [OF upd, of "\<lambda>m. count m c"] by simp
  moreover have "count (mset (po_idle ops (ps_pool s))) c +
      count (sum_list (map conns_of (ps_phases s))) c \<le> 1"
    using I by (simp add: owned_def)
  ultimately have "count (mset (po_idle ops (ps_pool s))) c = 0"
    and other: "count (sum_list (map conns_of ((ps_phases s)[i := Outside]))) c = 0"
    by linarith+
  moreover have "j = i" if j: "j < length (ps_phases s)" "ps_phases s ! j = Holding c" for j
  proof (rule ccontr)
    assume "j \<noteq> i"
    then have "(ps_phases s)[i := Outside] ! j = Holding c" using j by simp
    with sum_list_map_update [of j "(ps_phases s)[i := Outside]" conns_of Outside] j(1)
    have "c \<in># sum_list (map conns_of ((ps_phases s)[i := Outside]))"
      by (metis (no_types, lifting) add_0_right conns_of.simps(1,3) length_list_update
          multi_member_split union_iff union_single_eq_member)
    with other show False by (simp add: count_eq_zero_iff)
  qed
  ultimately show ?thesis by (simp add: count_eq_zero_iff)
qed

lemma turn_Take_ok:
  assumes "pool_ok ops p" and "po_turn ops p w = (Take c, p', w')"
  shows "pool_ok ops p' \<and> pool_lent ops p' = Suc (pool_lent ops p) \<and> po_max ops p' = po_max ops p"
  using turn_Take [OF assms(2)] assms(1) by (auto simp: pool_ok_def pool_lent_def)

lemma turn_other_ok:
  assumes "pool_ok ops p" and "po_turn ops p w = (t, p', w')" and "\<And>c. t \<noteq> Take c"
  shows "pool_ok ops p' \<and> pool_lent ops p' = pool_lent ops p \<and> po_max ops p' = po_max ops p \<and>
    (t = Try_create \<longrightarrow> po_total ops p' < po_max ops p')"
  using turn_other [OF assms(2,3)] assms(1) by (auto simp: pool_ok_def pool_lent_def)

lemma connected_ok:
  assumes "pool_ok ops p" and "po_total ops p < po_max ops p" and "po_connected ops (Some c) p = (t, p')"
  shows "t = Take c \<and> pool_ok ops p' \<and> pool_lent ops p' = Suc (pool_lent ops p) \<and>
    po_max ops p' = po_max ops p"
proof -
  have "po_total ops p < 2 ^ 64 - 1" using assms(1,2) by (auto simp: pool_ok_def)
  from connected_Some [OF assms(3) this] assms(1,2) show ?thesis
    by (auto simp: pool_ok_def pool_lent_def)
qed

text \<open>One turn of the loop either ends with a guard or reaches the wait with nothing taken.\<close>

lemma acquire_run_turn:
  assumes ok: "pool_ok ops p" and quiet: "\<And>st. fst (others st) = fst st"
  shows "(\<exists>c st. acquire_run ops others wakes (p, w) = (Some c, st) \<and> pool_ok ops (fst st) \<and>
       pool_lent ops (fst st) = Suc (pool_lent ops p) \<and> po_max ops (fst st) = po_max ops p) \<or>
    (\<exists>st. acquire_run ops others wakes (p, w) =
         (case wakes of [] \<Rightarrow> (None, st) | f # fs \<Rightarrow> acquire_run ops others fs (f st)) \<and>
       pool_ok ops (fst st) \<and> pool_lent ops (fst st) = pool_lent ops p \<and>
       po_max ops (fst st) = po_max ops p)"
proof -
  obtain t p1 w1 where turn: "po_turn ops p w = (t, p1, w1)" by (metis prod_cases3)
  show ?thesis
  proof (cases t)
    case (Take c)
    with turn_Take_ok [OF ok] turn show ?thesis by (intro disjI1) (auto simp: Let_def)
  next
    case Block
    with turn_other_ok [OF ok turn] turn show ?thesis
      by (intro disjI2 exI [of _ "(p1, w1)"]) (simp add: Let_def)
  next
    case Try_create
    with turn_other_ok [OF ok turn] have p1: "pool_ok ops p1" "pool_lent ops p1 = pool_lent ops p"
      "po_max ops p1 = po_max ops p"
      and room: "po_total ops p1 < po_max ops p1" by auto
    obtain r w2 where conn: "po_connect ops p1 w1 = (r, w2)" by fastforce
    obtain w3 where oth: "others (p1, w2) = (p1, w3)"
      using quiet [of "(p1, w2)"] by (metis eq_fst_iff fst_conv)
    show ?thesis
    proof (cases r)
      case None
      then show ?thesis using turn Try_create conn oth connected_None [of p1] p1
        by (intro disjI2 exI [of _ "(p1, w3)"]) (simp add: Let_def)
    next
      case (Some c)
      obtain u p3 where "po_connected ops (Some c) p1 = (u, p3)" by fastforce
      with connected_ok [OF p1(1) room this] turn Try_create conn oth p1 Some show ?thesis
        by (intro disjI1 exI [of _ c] exI [of _ "(p3, w3)"]) (simp add: Let_def)
    qed
  qed
qed

lemma acquire_run_ok:
  assumes "pool_ok ops (fst st)" and "\<And>st. fst (others st) = fst st"
    and "\<And>f st. f \<in> set wakes \<Longrightarrow> fst (f st) = fst st"
    and "acquire_run ops others wakes st = (r, st')"
  shows "pool_ok ops (fst st') \<and> po_max ops (fst st') = po_max ops (fst st) \<and>
    pool_lent ops (fst st') = pool_lent ops (fst st) + (case r of Some _ \<Rightarrow> 1 | None \<Rightarrow> 0)"
  using assms(1,3,4)
proof (induction wakes arbitrary: st)
  case Nil
  obtain p w where st: "st = (p, w)" by (cases st)
  show ?case
    using acquire_run_turn [OF Nil.prems(1) assms(2), of "[]" "snd st"] Nil.prems(3)
    by (auto simp: st)
next
  case (Cons f fs)
  obtain p w where st: "st = (p, w)" by (cases st)
  from acquire_run_turn [OF Cons.prems(1) assms(2), of "f # fs" "snd st"]
  consider c st1 where "acquire_run ops others (f # fs) st = (Some c, st1)"
      "pool_ok ops (fst st1)" "pool_lent ops (fst st1) = Suc (pool_lent ops p)"
      "po_max ops (fst st1) = po_max ops p"
    | st1 where "acquire_run ops others (f # fs) st = acquire_run ops others fs (f st1)"
      "pool_ok ops (fst st1)" "pool_lent ops (fst st1) = pool_lent ops p"
      "po_max ops (fst st1) = po_max ops p"
    by (auto simp: st)
  then show ?case
  proof cases
    case 1
    with Cons.prems(3) show ?thesis by (auto simp: st)
  next
    case 2
    have "fst (f st1) = fst st1" using Cons.prems(2) [of f] by simp
    with 2 Cons.IH [of "f st1"] Cons.prems(2,3) show ?thesis by (simp add: st)
  qed
qed

lemma release_lent:
  assumes "pool_ok ops p" and "0 < pool_lent ops p" and "po_release ops c (p, w) = (p', w')"
  shows "pool_ok ops p' \<and> pool_lent ops p' = pool_lent ops p - 1 \<and> po_max ops p' = po_max ops p"
  using release_back [OF assms(3)] assms(1,2) by (auto simp: pool_ok_def pool_lent_def)

end

end
