(* ===== verification/Db_Pool.thy ===== *)
theory Db_Pool
  imports Conn_Pool Cpp_Text
begin

text \<open>
  \<open>server/logic_server/db_pool.h\<close> and \<open>db_pool.cc\<close>: the pool of PostgreSQL connections.
  libpq and everything else outside this process is the record \<open>pg_env\<close> over an opaque
  world; the pool's own state is \<open>db_pool\<close>. The critical sections of the class make up
  \<open>db_ops\<close>; \<open>Conn_Pool\<close> composes them into \<open>DbPool::Acquire\<close> and into the interleaving of
  many threads. The properties are about both.
\<close>

section \<open>State\<close>

record db_pool =
  dp_conninfo :: string
  dp_min_pool :: nat
  dp_max_pool :: nat
  dp_idle :: "conn list"
  dp_total_created :: nat

text \<open>
  Results of \<open>PQexec\<close>: the null pointer, or a status with the rows as \<open>PQgetvalue\<close> shows
  them (text, and the empty text for an SQL null).
\<close>

datatype exec_status = PGRES_EMPTY_QUERY | PGRES_COMMAND_OK | PGRES_TUPLES_OK | PGRES_FATAL_ERROR

datatype pg_result = NullResult | PGresult exec_status "string list list"

text \<open>
  libpq and the rest of the outside world. \<open>pool_others\<close> is what other threads do to the
  pool while its mutex is free around \<open>PQconnectdb\<close>, \<open>pool_wakes\<close> what they do before each
  wake-up of a waiting thread (see \<open>acquire_run\<close>).
\<close>

record 'd pg_env =
  pq_connectdb :: "string \<Rightarrow> 'd \<Rightarrow> conn option \<times> 'd"
  pq_status_ok :: "conn \<Rightarrow> 'd \<Rightarrow> bool"
  pq_finish :: "conn \<Rightarrow> 'd \<Rightarrow> 'd"
  pq_exec :: "conn \<Rightarrow> string \<Rightarrow> 'd \<Rightarrow> pg_result \<times> 'd"
  pq_clear :: "pg_result \<Rightarrow> 'd \<Rightarrow> 'd"
  pg_time :: "'d \<Rightarrow> i64"
  pool_others :: "db_pool \<times> 'd \<Rightarrow> db_pool \<times> 'd"
  pool_wakes :: "db_pool \<times> 'd \<Rightarrow> (db_pool \<times> 'd \<Rightarrow> db_pool \<times> 'd) list"

section \<open>Operations\<close>

definition DbPool_CreateConn :: "'d pg_env \<Rightarrow> db_pool \<Rightarrow> 'd \<Rightarrow> conn option \<times> 'd" where
  "DbPool_CreateConn env p d =
     (case pq_connectdb env (c_str (dp_conninfo p)) d of
        (None, d') \<Rightarrow> (None, d')
      | (Some c, d') \<Rightarrow>
          if pq_status_ok env c d' then (Some c, d') else (None, pq_finish env c d'))"

definition DbPool_IsHealthy :: "'d pg_env \<Rightarrow> conn option \<Rightarrow> 'd \<Rightarrow> bool" where
  "DbPool_IsHealthy env conn d = (case conn of None \<Rightarrow> False | Some c \<Rightarrow> pq_status_ok env c d)"

fun DbPool_fill :: "'d pg_env \<Rightarrow> nat \<Rightarrow> db_pool \<Rightarrow> 'd \<Rightarrow> db_pool \<times> 'd" where
  "DbPool_fill env 0 p d = (p, d)"
| "DbPool_fill env (Suc n) p d =
     (case DbPool_CreateConn env p d of
        (Some c, d') \<Rightarrow> DbPool_fill env n (p\<lparr>dp_idle := dp_idle p @ [c]\<rparr>) d'
      | (None, d') \<Rightarrow> DbPool_fill env n p d')"

definition DbPool_new :: "'d pg_env \<Rightarrow> string \<Rightarrow> nat \<Rightarrow> nat \<Rightarrow> 'd \<Rightarrow> db_pool \<times> 'd" where
  "DbPool_new env conninfo min_pool max_pool d =
     (case DbPool_fill env min_pool
        \<lparr>dp_conninfo = conninfo, dp_min_pool = min_pool, dp_max_pool = max_pool, dp_idle = [],
         dp_total_created = 0\<rparr> d of
        (p, d') \<Rightarrow> (p\<lparr>dp_total_created := length (dp_idle p)\<rparr>, d'))"

definition DbPool_destroy :: "'d pg_env \<Rightarrow> db_pool \<times> 'd \<Rightarrow> db_pool \<times> 'd" where
  "DbPool_destroy env st =
     (case st of (p, d) \<Rightarrow>
        (p\<lparr>dp_idle := [], dp_total_created := 0\<rparr>, fold (pq_finish env) (dp_idle p) d))"

text \<open>The head of the loop: dead connections at the front are closed and forgotten.\<close>

fun DbPool_scan :: "'d pg_env \<Rightarrow> conn list \<Rightarrow> nat \<Rightarrow> 'd \<Rightarrow> conn option \<times> conn list \<times> nat \<times> 'd" where
  "DbPool_scan env [] made d = (None, [], made, d)"
| "DbPool_scan env (c # idle) made d =
     (if \<not> DbPool_IsHealthy env (Some c) d
      then DbPool_scan env idle (size_dec made) (pq_finish env c d)
      else (Some c, idle, made, d))"

definition DbPool_turn :: "'d pg_env \<Rightarrow> db_pool \<Rightarrow> 'd \<Rightarrow> turn \<times> db_pool \<times> 'd" where
  "DbPool_turn env p d =
     (case DbPool_scan env (dp_idle p) (dp_total_created p) d of
        (r, idle, made, d') \<Rightarrow>
          let p' = p\<lparr>dp_idle := idle, dp_total_created := made\<rparr>
          in case r of
               Some c \<Rightarrow> (Take c, p', d')
             | None \<Rightarrow> (if made < dp_max_pool p then Try_create else Block, p', d'))"

definition DbPool_connected :: "conn option \<Rightarrow> db_pool \<Rightarrow> turn \<times> db_pool" where
  "DbPool_connected r p =
     (case r of
        Some c \<Rightarrow> (Take c, p\<lparr>dp_total_created := size_inc (dp_total_created p)\<rparr>)
      | None \<Rightarrow> (Block, p))"

definition DbPool_Release :: "'d pg_env \<Rightarrow> conn \<Rightarrow> db_pool \<times> 'd \<Rightarrow> db_pool \<times> 'd" where
  "DbPool_Release env c st =
     (case st of (p, d) \<Rightarrow>
        if \<not> DbPool_IsHealthy env (Some c) d
        then (p\<lparr>dp_total_created :=
                 (if 0 < dp_total_created p then size_dec (dp_total_created p) else dp_total_created p)\<rparr>,
              pq_finish env c d)
        else (p\<lparr>dp_idle := dp_idle p @ [c]\<rparr>, d))"

definition db_ops :: "'d pg_env \<Rightarrow> (db_pool, 'd) pool_ops" where
  "db_ops env =
     \<lparr>po_turn = DbPool_turn env, po_connect = DbPool_CreateConn env,
      po_connected = DbPool_connected, po_release = DbPool_Release env,
      po_idle = dp_idle, po_total = dp_total_created, po_max = dp_max_pool\<rparr>"

definition DbPool_Acquire :: "'d pg_env \<Rightarrow> db_pool \<times> 'd \<Rightarrow> conn option \<times> (db_pool \<times> 'd)" where
  "DbPool_Acquire env st = acquire_run (db_ops env) (pool_others env) (pool_wakes env st) st"

section \<open>The laws\<close>

lemma db_ops_simps [simp]:
  "po_turn (db_ops env) = DbPool_turn env" "po_connect (db_ops env) = DbPool_CreateConn env"
  "po_connected (db_ops env) = DbPool_connected" "po_release (db_ops env) = DbPool_Release env"
  "po_idle (db_ops env) = dp_idle" "po_total (db_ops env) = dp_total_created"
  "po_max (db_ops env) = dp_max_pool"
  by (simp_all add: db_ops_def)

lemma DbPool_scan_Some:
  "DbPool_scan env idle made d = (Some c, idle', made', d') \<Longrightarrow> length idle \<le> made \<Longrightarrow>
   \<exists>dead. idle = dead @ c # idle' \<and> made' = made - length dead \<and> pq_status_ok env c d' \<and>
     d' = fold (pq_finish env) dead d"
proof (induction env idle made d rule: DbPool_scan.induct)
  case (2 env x idle made d)
  show ?case
  proof (cases "DbPool_IsHealthy env (Some x) d")
    case True
    with 2 show ?thesis by (intro exI [of _ "[]"]) (auto simp: DbPool_IsHealthy_def)
  next
    case False
    with "2.prems" have "DbPool_scan env idle (made - 1) (pq_finish env x d) = (Some c, idle', made', d')"
      "length idle \<le> made - 1" by auto
    with "2.IH" [OF False] "2.prems"(2) obtain dead where "idle = dead @ c # idle'"
      "made' = made - 1 - length dead" "pq_status_ok env c d'"
      "d' = fold (pq_finish env) dead (pq_finish env x d)" by auto
    then show ?thesis by (intro exI [of _ "x # dead"]) simp
  qed
qed simp

lemma DbPool_scan_None:
  "DbPool_scan env idle made d = (None, idle', made', d') \<Longrightarrow> length idle \<le> made \<Longrightarrow>
   idle' = [] \<and> made' = made - length idle \<and> d' = fold (pq_finish env) idle d"
proof (induction env idle made d rule: DbPool_scan.induct)
  case (2 env x idle made d)
  then have "\<not> DbPool_IsHealthy env (Some x) d" by (auto split: if_splits)
  with 2 show ?case by auto
qed auto

interpretation db: pool_laws "db_ops env" for env :: "'d pg_env"
proof (unfold_locales, goal_cases)
  case (1 p w c p' w')
  then show ?case
    by (auto simp: DbPool_turn_def Let_def split: prod.splits option.splits if_splits dest!: DbPool_scan_Some)
next
  case (2 p w t p' w')
  then show ?case
    by (auto simp: DbPool_turn_def Let_def split: prod.splits option.splits if_splits dest!: DbPool_scan_None)
next
  case (3 c p t p')
  then show ?case by (auto simp: DbPool_connected_def)
next
  case (4 p)
  then show ?case by (simp add: DbPool_connected_def)
next
  case (5 c p w p' w')
  then show ?case by (auto simp: DbPool_Release_def split: if_splits)
qed

section \<open>Guards\<close>

text \<open>
  A quiet environment: the other threads leave this pool alone while the mutex is free. (They
  may still change the world.)
\<close>

definition pg_quiet :: "'d pg_env \<Rightarrow> bool" where
  "pg_quiet env \<longleftrightarrow> (\<forall>st. fst (pool_others env st) = fst st) \<and>
     (\<forall>st. \<forall>f \<in> set (pool_wakes env st). \<forall>st'. fst (f st') = fst st')"

definition db_ok :: "'d pg_env \<Rightarrow> nat \<Rightarrow> db_pool \<times> 'd \<Rightarrow> bool" where
  "db_ok env mx st \<longleftrightarrow> pg_quiet env \<and> pool_ok (db_ops env) (fst st) \<and> dp_max_pool (fst st) = mx"

definition db_lent :: "db_pool \<times> 'd \<Rightarrow> nat" where
  "db_lent st = dp_total_created (fst st) - length (dp_idle (fst st))"

lemma pool_lent_db: "pool_lent (db_ops env) p = db_lent (p, d)"
  by (simp add: pool_lent_def db_lent_def)

lemma DbPool_Acquire_ok:
  assumes "db_ok env mx st" and "DbPool_Acquire env st = (r, st')"
  shows "db_ok env mx st' \<and> db_lent st' = db_lent st + (case r of Some _ \<Rightarrow> 1 | None \<Rightarrow> 0)"
proof -
  have "pool_ok (db_ops env) (fst st') \<and> po_max (db_ops env) (fst st') = po_max (db_ops env) (fst st) \<and> pool_lent (db_ops env) (fst st') =
      pool_lent (db_ops env) (fst st) + (case r of Some _ \<Rightarrow> 1 | None \<Rightarrow> 0)"
    using assms unfolding db_ok_def pg_quiet_def DbPool_Acquire_def
    by (intro db.acquire_run_ok [where others = "pool_others env" and wakes = "pool_wakes env st"]) blast+
  with assms(1) show ?thesis by (simp add: db_ok_def pool_lent_def db_lent_def)
qed

lemma DbPool_Release_ok:
  assumes "db_ok env mx st" and "0 < db_lent st"
  shows "db_ok env mx (DbPool_Release env c st) \<and> db_lent (DbPool_Release env c st) = db_lent st - 1"
proof -
  obtain p d p' d' where st: "st = (p, d)" and r: "DbPool_Release env c (p, d) = (p', d')"
    by (metis surj_pair)
  show ?thesis
    using db.release_lent [of env p c d p' d'] assms r
    by (simp add: st db_ok_def pool_lent_def db_lent_def)
qed

interpretation dbg: guard_laws "DbPool_Acquire env" "DbPool_Release env" "db_ok env mx" db_lent
    "\<lambda>s s'. fst s = fst s'" for env :: "'d pg_env" and mx
proof (unfold_locales, goal_cases)
  case (1 s c s')
  then show ?case using DbPool_Acquire_ok [of env mx s "Some c" s'] by simp
next
  case (2 s s')
  then show ?case using DbPool_Acquire_ok [of env mx s None s'] by simp
next
  case (3 s c)
  then show ?case by (rule DbPool_Release_ok)
next
  case (4 s s')
  then show ?case by (simp add: db_ok_def db_lent_def)
qed

lemma DbPool_fill_frame:
  "DbPool_fill env n p d = (p', d') \<Longrightarrow>
     dp_conninfo p' = dp_conninfo p \<and> dp_max_pool p' = dp_max_pool p \<and>
     length (dp_idle p') \<le> length (dp_idle p) + n"
proof (induction n arbitrary: p d)
  case (Suc n)
  then show ?case by (fastforce split: prod.splits option.splits)
qed simp

lemma DbPool_new_start:
  assumes "DbPool_new env ci mn mx d = (p, d')" and "mn \<le> mx"
  shows "dp_total_created p = length (dp_idle p) \<and> dp_total_created p \<le> mn \<and> dp_max_pool p = mx"
proof -
  let ?q = "\<lparr>dp_conninfo = ci, dp_min_pool = mn, dp_max_pool = mx, dp_idle = [], dp_total_created = 0\<rparr>"
  obtain q d1 where fill: "DbPool_fill env mn ?q d = (q, d1)" by fastforce
  then have "p = q\<lparr>dp_total_created := length (dp_idle q)\<rparr>"
    using assms(1) by (simp add: DbPool_new_def)
  then show ?thesis using DbPool_fill_frame [OF fill] assms(2) by simp
qed

lemma db_reach_inv:
  assumes "DbPool_new env ci mn mx d = (p, d')" and "mn \<le> mx" and "0 < N" and "mx + N < 2 ^ 64"
    and "distinct (dp_idle p)" and "pool_reach (db_ops env) (pool_start p d' N) s"
  shows "pool_inv (db_ops env) N mx s"
proof (rule db.inv_reach [OF assms(6) _ assms(4)])
  show "pool_inv (db_ops env) N mx (pool_start p d' N)"
    using DbPool_new_start [OF assms(1,2)] db.inv_start [of env p N d'] assms(2,3,5) by auto
qed

section \<open>Properties\<close>

text \<open>
  C10: however many threads acquire and release connections, in whatever order they take the
  mutex and whatever happens to the connections, \<open>total_created_\<close> equals the idle
  connections plus the ones held by guards, so it never wraps below zero; no connection is in
  two hands, or in the queue while a thread holds it.
\<close>

theorem db_pool_accounting:
  assumes "DbPool_new env ci mn mx d = (p, d')" and "mn \<le> mx" and "0 < N" and "mx + N < 2 ^ 64"
    and "distinct (dp_idle p)" and "pool_reach (db_ops env) (pool_start p d' N) s"
  shows "dp_total_created (ps_pool s) = length (dp_idle (ps_pool s)) + lent_conns s \<and>
    (\<forall>i < N. \<forall>c. ps_phases s ! i = Holding c \<longrightarrow> c \<notin> set (dp_idle (ps_pool s)) \<and>
       (\<forall>j < N. ps_phases s ! j = Holding c \<longrightarrow> j = i))"
proof -
  note inv = db_reach_inv [OF assms]
  have "\<forall>i < N. \<forall>c. ps_phases s ! i = Holding c \<longrightarrow> c \<notin> set (dp_idle (ps_pool s)) \<and>
      (\<forall>j < N. ps_phases s ! j = Holding c \<longrightarrow> j = i)"
    using db.inv_exclusive [OF inv, unfolded db.inv_unfold(5) [OF inv] db_ops_simps] by blast
  then show ?thesis using db.inv_unfold(1) [OF inv] by (simp only: db_ops_simps simp_thms)
qed

text \<open>
  C24: the limit \<open>max_pool_\<close> is tested before the mutex is released to connect and the counter
  is raised afterwards, so it holds up to the threads that connect at the same time. If never
  more than \<open>k\<close> threads are between the test and the counting, at most \<open>max_pool_ + k - 1\<close>
  connections exist or are being opened, counted or not; with \<open>k = 1\<close> the limit is exact.
\<close>

theorem db_pool_bound:
  assumes "DbPool_new env ci mn mx d = (p, d')" and "mn \<le> mx" and "0 < N" and "mx + N < 2 ^ 64"
    and "distinct (dp_idle p)" and "0 < k" and "capped_reach (db_ops env) k (pool_start p d' N) s"
  shows "dp_total_created (ps_pool s) + pending_creates s \<le> mx + k - 1 \<and>
    size (owned (db_ops env) s) \<le> mx + k - 1"
proof -
  have inv0: "pool_inv (db_ops env) N mx (pool_start p d' N)"
    by (rule db_reach_inv [OF assms(1-5) pool_reach.start])
  have "dp_total_created (ps_pool s) + pending_creates s \<le> mx + k - 1"
  proof (rule db.capped_bound [OF assms(7) inv0 assms(4), unfolded db_ops_simps])
    have "dp_total_created p \<le> mx + k - 1" using DbPool_new_start [OF assms(1,2)] assms(2,6) by linarith
    then show "dp_total_created (ps_pool (pool_start p d' N)) + pending_creates (pool_start p d' N) \<le> mx + k - 1"
      by (simp add: pool_start_def pending_creates_def)
  qed
  with db.owned_le [OF db_reach_inv [OF assms(1-5) capped_reach_reach [OF assms(7)]]]
  show ?thesis by simp
qed

text \<open>A world in which connections get consecutive addresses and stay healthy.\<close>

definition counting_pg :: "nat pg_env" where
  "counting_pg =
     \<lparr>pq_connectdb = (\<lambda>s d. (Some d, Suc d)), pq_status_ok = (\<lambda>c d. True), pq_finish = (\<lambda>c d. d),
      pq_exec = (\<lambda>c s d. (NullResult, d)), pq_clear = (\<lambda>r d. d), pg_time = (\<lambda>d. 0),
      pool_others = (\<lambda>st. st), pool_wakes = (\<lambda>st. [])\<rparr>"

definition empty_db_pool :: "nat \<Rightarrow> db_pool" where
  "empty_db_pool mx = \<lparr>dp_conninfo = [], dp_min_pool = 0, dp_max_pool = mx, dp_idle = [], dp_total_created = 0\<rparr>"

lemma DbPool_new_empty: "DbPool_new counting_pg [] 0 mx d = (empty_db_pool mx, d)"
  by (simp add: DbPool_new_def empty_db_pool_def)

text \<open>The pool after \<open>m\<close> connections have been made and handed out.\<close>

abbreviation lent_pool :: "nat \<Rightarrow> nat \<Rightarrow> db_pool" where
  "lent_pool mx m \<equiv> (empty_db_pool mx)\<lparr>dp_total_created := m\<rparr>"

abbreviation created_list :: "nat list \<Rightarrow> phase list" where
  "created_list cs \<equiv> map (\<lambda>c. Created (Some c)) cs"

lemma counting_turn: "m < mx \<Longrightarrow>
    po_turn (db_ops counting_pg) (lent_pool mx m) d = (Try_create, lent_pool mx m, d)"
  by (simp add: DbPool_turn_def empty_db_pool_def)

lemma counting_connect: "po_connect (db_ops counting_pg) p d = (Some d, Suc d)"
  by (simp add: DbPool_CreateConn_def counting_pg_def)

lemma counting_connected: "m < 2 ^ 64 - 1 \<Longrightarrow>
    po_connected (db_ops counting_pg) (Some c) (lent_pool mx m) = (Take c, lent_pool mx (Suc m))"
  by (simp add: DbPool_connected_def)

lemma phases_sums [simp]:
  "sum_list (map (pends \<circ> Holding) cs) = 0" "sum_list (map (holds \<circ> Holding) cs) = length cs"
  "sum_list (map (pends \<circ> (\<lambda>c. Created (Some c))) cs) = length cs"
  "sum_list (map (conns_of \<circ> Holding) cs) = mset cs"
  "sum_list (map (conns_of \<circ> (\<lambda>c. Created (Some c))) cs) = mset cs"
  by (induction cs) auto

lemma pending_at [simp]: "pending_creates (sys_at p w phs) = sum_list (map pends phs)"
  by (simp add: pending_creates_def)

lemma owned_lent_pool [simp]: "owned ops (sys_at p w phs) = mset (po_idle ops p) + sum_list (map conns_of phs)"
  by (simp add: owned_def)

lemma replicate_front: "j < n \<Longrightarrow> replicate (n - j) x = x # replicate (n - Suc j) x"
  by (metis Suc_diff_Suc replicate_Suc)

text \<open>One thread after the other gets a connection, while the pool has room.\<close>

lemma run_one_by_one:
  assumes "0 < k" and "N < 2 ^ 64"
  shows "m \<le> N \<Longrightarrow> m \<le> mx \<Longrightarrow>
    capped_reach (db_ops counting_pg) k (pool_start (empty_db_pool mx) 0 N)
      (sys_at (lent_pool mx m) m (map Holding [0..<m] @ replicate (N - m) Outside))"
proof (induction m)
  case 0
  show ?case using capped_reach.start by (simp add: pool_start_def empty_db_pool_def)
next
  case (Suc m)
  let ?hs = "map Holding [0..<m]" and ?os = "replicate (N - Suc m) Outside" and ?p = "lent_pool mx m"
  have N: "replicate (N - m) Outside = Outside # ?os" using Suc.prems by (simp add: replicate_front)
  have m: "m < mx" "m < 2 ^ 64 - 1" using Suc.prems assms(2) by simp_all
  note run = Suc.IH [OF Suc_leD [OF Suc.prems(1)] Suc_leD [OF Suc.prems(2)], unfolded N]
  have r1: "capped_reach (db_ops counting_pg) k (pool_start (empty_db_pool mx) 0 N)
      (sys_at ?p m (?hs @ Entering # ?os))"
    by (rule capped_reach.step [OF run step_call_at]) simp
  have r2: "capped_reach (db_ops counting_pg) k (pool_start (empty_db_pool mx) 0 N)
      (sys_at ?p m (?hs @ Creating # ?os))"
    using assms(1) by (intro capped_reach.step [OF r1 step_create_at [OF counting_turn [OF m(1)]]]) simp
  have r3: "capped_reach (db_ops counting_pg) k (pool_start (empty_db_pool mx) 0 N)
      (sys_at ?p (Suc m) (?hs @ Created (Some m) # ?os))"
    using assms(1)
    by (intro capped_reach.step [OF r2 step_connect_at [OF counting_connect]]) (simp_all add: empty_db_pool_def)
  have "capped_reach (db_ops counting_pg) k (pool_start (empty_db_pool mx) 0 N)
      (sys_at (lent_pool mx (Suc m)) (Suc m) (?hs @ Holding m # ?os))"
    by (rule capped_reach.step [OF r3 step_created_at [OF counting_connected [OF m(2)]]]) simp
  then show ?case by simp
qed

text \<open>When one connection is missing to the limit, \<open>k\<close> threads pass the test together.\<close>

lemma run_test_together:
  assumes "0 < mx" and "0 < k" and "mx + k \<le> 2 ^ 64"
  shows "j \<le> k \<Longrightarrow> capped_reach (db_ops counting_pg) k (pool_start (empty_db_pool mx) 0 (mx + k - 1))
    (sys_at (lent_pool mx (mx - 1)) (mx - 1)
       (map Holding [0..<mx - 1] @ replicate j Creating @ replicate (k - j) Outside))"
proof (induction j)
  case 0
  have "mx - 1 \<le> mx + k - 1" "mx + k - 1 < 2 ^ 64" "mx + k - 1 - (mx - 1) = k" using assms by simp_all
  with run_one_by_one [of k "mx + k - 1" "mx - 1" mx] assms(2) show ?case by simp
next
  case (Suc j)
  let ?p = "lent_pool mx (mx - 1)" and ?os = "replicate (k - Suc j) Outside"
  let ?hs = "map Holding [0..<mx - 1] @ replicate j Creating"
  have N: "replicate (k - j) Outside = Outside # ?os" using Suc.prems by (simp add: replicate_front)
  have m: "mx - 1 < mx" using assms(1) by simp
  have r0: "capped_reach (db_ops counting_pg) k (pool_start (empty_db_pool mx) 0 (mx + k - 1))
      (sys_at ?p (mx - 1) (?hs @ Outside # ?os))"
    using Suc N by simp
  have r1: "capped_reach (db_ops counting_pg) k (pool_start (empty_db_pool mx) 0 (mx + k - 1))
      (sys_at ?p (mx - 1) (?hs @ Entering # ?os))"
    using Suc.prems by (intro capped_reach.step [OF r0 step_call_at]) (simp add: sum_list_replicate)
  have "capped_reach (db_ops counting_pg) k (pool_start (empty_db_pool mx) 0 (mx + k - 1))
      (sys_at ?p (mx - 1) (?hs @ Creating # ?os))"
    using Suc.prems
    by (intro capped_reach.step [OF r1 step_create_at [OF counting_turn [OF m]]]) (simp add: sum_list_replicate)
  then show ?case by (simp add: replicate_append_same [symmetric])
qed

lemma run_connect_together:
  assumes "0 < mx" and "0 < k" and "mx + k \<le> 2 ^ 64"
  shows "j \<le> k \<Longrightarrow> capped_reach (db_ops counting_pg) k (pool_start (empty_db_pool mx) 0 (mx + k - 1))
    (sys_at (lent_pool mx (mx - 1)) (mx - 1 + j)
       (map Holding [0..<mx - 1] @ created_list [mx - 1..<mx - 1 + j] @ replicate (k - j) Creating))"
proof (induction j)
  case 0
  show ?case using run_test_together [OF assms, of k] by simp
next
  case (Suc j)
  let ?p = "lent_pool mx (mx - 1)" and ?cs = "replicate (k - Suc j) Creating"
  let ?hs = "map Holding [0..<mx - 1] @ created_list [mx - 1..<mx - 1 + j]"
  have N: "replicate (k - j) Creating = Creating # ?cs" using Suc.prems by (simp add: replicate_front)
  have r1: "capped_reach (db_ops counting_pg) k (pool_start (empty_db_pool mx) 0 (mx + k - 1))
      (sys_at ?p (mx - 1 + j) (?hs @ Creating # ?cs))"
    using Suc N by simp
  have "capped_reach (db_ops counting_pg) k (pool_start (empty_db_pool mx) 0 (mx + k - 1))
      (sys_at ?p (Suc (mx - 1 + j)) (?hs @ Created (Some (mx - 1 + j)) # ?cs))"
    using Suc.prems
    by (intro capped_reach.step [OF r1 step_connect_at [OF counting_connect]])
      (simp_all add: empty_db_pool_def sum_list_replicate)
  then show ?case by simp
qed

lemma run_hold_together:
  assumes "0 < mx" and "0 < k" and "mx + k \<le> 2 ^ 64"
  shows "j \<le> k \<Longrightarrow> capped_reach (db_ops counting_pg) k (pool_start (empty_db_pool mx) 0 (mx + k - 1))
    (sys_at (lent_pool mx (mx - 1 + j)) (mx + k - 1)
       (map Holding [0..<mx - 1 + j] @ created_list [mx - 1 + j..<mx + k - 1]))"
proof (induction j)
  case 0
  have "mx - 1 + k = mx + k - 1" using assms(1) by simp
  with run_connect_together [OF assms, of k] show ?case by simp
next
  case (Suc j)
  let ?c = "mx - 1 + j" and ?hs = "map Holding [0..<mx - 1 + j]"
  have N: "[?c..<mx + k - 1] = ?c # [Suc ?c..<mx + k - 1]" using Suc.prems assms(1) by (simp add: upt_conv_Cons)
  have small: "?c < 2 ^ 64 - 1" using Suc.prems assms by simp
  have r1: "capped_reach (db_ops counting_pg) k (pool_start (empty_db_pool mx) 0 (mx + k - 1))
      (sys_at (lent_pool mx ?c) (mx + k - 1) (?hs @ Created (Some ?c) # created_list [Suc ?c..<mx + k - 1]))"
    using Suc N by simp
  have "capped_reach (db_ops counting_pg) k (pool_start (empty_db_pool mx) 0 (mx + k - 1))
      (sys_at (lent_pool mx (Suc ?c)) (mx + k - 1) (?hs @ Holding ?c # created_list [Suc ?c..<mx + k - 1]))"
    using Suc.prems assms(1)
    by (intro capped_reach.step [OF r1 step_created_at [OF counting_connected [OF small]]]) simp
  then show ?case by simp
qed

text \<open>
  C25: the bound of the previous property is reached, whatever \<open>max_pool_\<close> and \<open>k\<close> are: on a
  pool that starts empty, \<open>max_pool_ - 1\<close> threads get a connection one after the other, then
  \<open>k\<close> threads pass the test before the first of them has connected, and in the end
  \<open>max_pool_ + k - 1\<close> connections are counted and in use.
\<close>

theorem db_pool_overshoots:
  assumes "0 < mx" and "0 < k" and "mx + k \<le> 2 ^ 64"
  shows "\<exists>p d' s. DbPool_new counting_pg [] 0 mx 0 = (p, d') \<and>
    capped_reach (db_ops counting_pg) k (pool_start p d' (mx + k - 1)) s \<and>
    dp_max_pool (ps_pool s) = mx \<and> dp_total_created (ps_pool s) = mx + k - 1 \<and>
    lent_conns s = mx + k - 1"
proof -
  let ?s = "sys_at (lent_pool mx (mx + k - 1)) (mx + k - 1) (map Holding [0..<mx + k - 1])"
  have "mx - 1 + k = mx + k - 1" using assms(1) by simp
  then have "capped_reach (db_ops counting_pg) k (pool_start (empty_db_pool mx) 0 (mx + k - 1)) ?s"
    using run_hold_together [OF assms, of k] by simp
  moreover have "lent_conns ?s = mx + k - 1" by (simp add: lent_conns_def)
  ultimately show ?thesis
    using DbPool_new_empty by (intro exI [of _ "empty_db_pool mx"] exI [of _ 0] exI [of _ ?s])
      (simp add: empty_db_pool_def)
qed

theorem db_pool_overshoots_witness:
  "\<exists>p d' s. DbPool_new counting_pg [] 0 20 0 = (p, d') \<and>
     capped_reach (db_ops counting_pg) 5 (pool_start p d' 24) s \<and>
     dp_max_pool (ps_pool s) = 20 \<and> dp_total_created (ps_pool s) = 24"
  using db_pool_overshoots [of 20 5] by auto

text \<open>Two threads on a pool limited to one connection; both hold one.\<close>

lemma two_holders_capped:
  "capped_reach (db_ops counting_pg) 2 (pool_start (empty_db_pool 1) 0 2)
     (sys_at (lent_pool 1 2) 2 [Holding 0, Holding 1])"
proof -
  have "[0..<2] = [0, 1 :: nat]" by (simp add: upt_rec)
  then show ?thesis using run_hold_together [of 1 2 2] by (simp add: numeral_2_eq_2 [symmetric])
qed

lemmas two_holders = capped_reach_reach [OF two_holders_capped]

theorem db_pool_accounting_witness:
  "\<exists>s. pool_reach (db_ops counting_pg) (pool_start (empty_db_pool 1) 0 2) s \<and>
     ps_phases s = [Holding 0, Holding 1] \<and>
     dp_total_created (ps_pool s) = length (dp_idle (ps_pool s)) + lent_conns s"
proof -
  let ?s = "sys_at ((empty_db_pool 1)\<lparr>dp_total_created := 2\<rparr>) (2 :: nat) [Holding 0, Holding 1]"
  have "dp_total_created (ps_pool ?s) = length (dp_idle (ps_pool ?s)) + lent_conns ?s"
    by (rule db_pool_accounting [OF DbPool_new_empty _ _ _ _ two_holders, THEN conjunct1])
      (simp_all add: empty_db_pool_def)
  with two_holders show ?thesis by (intro exI [of _ ?s]) simp
qed

theorem db_pool_bound_witness:
  "dp_total_created (lent_pool 1 2) \<le> 1 + 2 - (1 :: nat)"
  using db_pool_bound [OF DbPool_new_empty _ _ _ _ _ two_holders_capped] by (simp add: empty_db_pool_def)

lemma DbPool_scan_finds:
  assumes "c \<in> set idle" and "\<And>d. pq_status_ok env c d"
  shows "\<exists>c' idle' made' d'. DbPool_scan env idle made d = (Some c', idle', made', d')"
  using assms(1)
proof (induction idle arbitrary: made d)
  case (Cons x idle)
  then show ?case using assms(2) by (cases "x = c") (auto simp: DbPool_IsHealthy_def)
qed simp

lemma DbPool_Acquire_Some:
  assumes "length (dp_idle p) \<le> dp_total_created p"
    and "(\<exists>c \<in> set (dp_idle p). \<forall>d. pq_status_ok env c d) \<or>
      dp_total_created p - length (dp_idle p) < dp_max_pool p \<and>
      (\<forall>s d. \<exists>c d'. pq_connectdb env s d = (Some c, d') \<and> pq_status_ok env c d')"
  shows "\<exists>c st'. DbPool_Acquire env (p, d) = (Some c, st')"
proof -
  obtain r idle' made' d1 where scan: "DbPool_scan env (dp_idle p) (dp_total_created p) d = (r, idle', made', d1)"
    by (metis prod_cases4)
  show ?thesis
  proof (cases r)
    case (Some c)
    then have "po_turn (db_ops env) p d = (Take c, p\<lparr>dp_idle := idle', dp_total_created := made'\<rparr>, d1)"
      using scan by (simp add: DbPool_turn_def Let_def)
    then show ?thesis unfolding DbPool_Acquire_def by (simp only: acquire_run_Take) blast
  next
    case None
    let ?q = "p\<lparr>dp_idle := idle', dp_total_created := made'\<rparr>"
    have room: "made' = dp_total_created p - length (dp_idle p)"
      using DbPool_scan_None [OF scan [unfolded None] assms(1)] by simp
    have "\<not> (\<exists>c \<in> set (dp_idle p). \<forall>d. pq_status_ok env c d)"
      using DbPool_scan_finds [of _ "dp_idle p" env "dp_total_created p" d] scan None by auto
    with assms(2) have less: "made' < dp_max_pool p"
      and conn: "\<exists>c d'. pq_connectdb env s d = (Some c, d') \<and> pq_status_ok env c d'" for s d
      by (simp_all only: room simp_thms)
    have turn: "po_turn (db_ops env) p d = (Try_create, ?q, d1)"
      using scan None less by (simp add: DbPool_turn_def Let_def)
    obtain c d2 where create: "po_connect (db_ops env) ?q d1 = (Some c, d2)"
      using conn [of "c_str (dp_conninfo p)" d1] by (auto simp: DbPool_CreateConn_def)
    obtain p3 d3 where oth: "pool_others env (?q, d2) = (p3, d3)" by fastforce
    have "po_connected (db_ops env) (Some c) p3 = (Take c, p3\<lparr>dp_total_created := size_inc (dp_total_created p3)\<rparr>)"
      by (simp add: DbPool_connected_def)
    from acquire_run_created [of _ _ _ _ _ _ _ "pool_others env", OF turn create oth this]
    show ?thesis unfolding DbPool_Acquire_def by blast
  qed
qed

text \<open>
  C26: \<open>Acquire\<close> returns a guard, without waiting, whenever the queue holds a connection that
  stays healthy, or the pool has room for one more connection and the database accepts it.
\<close>

theorem DbPool_Acquire_succeeds:
  assumes "length (dp_idle p) \<le> dp_total_created p"
    and "(\<exists>c \<in> set (dp_idle p). \<forall>d. pq_status_ok env c d) \<or>
      dp_total_created p - length (dp_idle p) < dp_max_pool p \<and>
      (\<forall>s d. \<exists>c d'. pq_connectdb env s d = (Some c, d') \<and> pq_status_ok env c d')"
  shows "\<exists>c st'. DbPool_Acquire env (p, d) = (Some c, st')"
  by (rule DbPool_Acquire_Some [OF assms])

theorem DbPool_Acquire_succeeds_witness:
  "\<exists>c st'. DbPool_Acquire counting_pg (empty_db_pool 20, 5) = (Some c, st')"
  by (rule DbPool_Acquire_succeeds) (auto simp: empty_db_pool_def counting_pg_def)

end
