(* ===== verification/Db_Client.thy ===== *)
theory Db_Client
  imports Db_Pool Im_Proto
begin

text \<open>
  \<open>server/logic_server/pool_db_client.h\<close> and \<open>pool_db_client.cc\<close>: the queries of the logic
  server. The state is the pool together with the world of \<open>pg_env\<close>. Each function of the
  class has the text of its statement as a definition of its own, built by the same
  concatenation, and one definition for the call. A call that lets an exception of
  \<open>std::stoll\<close>, \<open>std::stoi\<close> or of a string built from a null pointer escape is an \<open>Inl\<close>:
  its guard is still released, its result is not cleared.
\<close>

type_synonym 'd db_st = "db_pool \<times> 'd"

section \<open>Results of a query\<close>

definition PQresultStatus :: "pg_result \<Rightarrow> exec_status" where
  "PQresultStatus res = (case res of NullResult \<Rightarrow> PGRES_FATAL_ERROR | PGresult st rows \<Rightarrow> st)"

definition PQntuples :: "pg_result \<Rightarrow> nat" where
  "PQntuples res = (case res of NullResult \<Rightarrow> 0 | PGresult st rows \<Rightarrow> length rows)"

text \<open>\<open>PQgetvalue\<close> answers a null pointer for a row or column that the result does not have.\<close>

definition PQgetvalue :: "pg_result \<Rightarrow> nat \<Rightarrow> nat \<Rightarrow> string option" where
  "PQgetvalue res i j =
     (case res of
        NullResult \<Rightarrow> None
      | PGresult st rows \<Rightarrow>
          if i < length rows \<and> j < length (rows ! i) then Some (rows ! i ! j) else None)"

definition PQclear :: "'d pg_env \<Rightarrow> pg_result \<Rightarrow> 'd \<Rightarrow> 'd" where
  "PQclear env res d = (case res of NullResult \<Rightarrow> d | _ \<Rightarrow> pq_clear env res d)"

text \<open>A value used as a \<open>std::string\<close>, read by \<open>std::stoll\<close>, read by \<open>std::stoi\<close>.\<close>

definition get_text :: "pg_result \<Rightarrow> nat \<Rightarrow> nat \<Rightarrow> string throws" where
  "get_text res i j = (case PQgetvalue res i j of None \<Rightarrow> Inl NullPointer | Some s \<Rightarrow> Inr s)"

definition get_int64 :: "pg_result \<Rightarrow> nat \<Rightarrow> nat \<Rightarrow> i64 throws" where
  "get_int64 res i j = ebind (get_text res i j) stoll"

definition get_int32 :: "pg_result \<Rightarrow> nat \<Rightarrow> nat \<Rightarrow> i32 throws" where
  "get_int32 res i j = ebind (get_text res i j) stoi"

text \<open>
  \<open>PGresult* res = PQexec(g->conn, sql.c_str()); ... PQclear(res); return x;\<close> where \<open>read\<close>
  computes \<open>x\<close> from the result and may throw before the result is cleared.
\<close>

definition with_result ::
  "'d pg_env \<Rightarrow> ('d \<Rightarrow> string) \<Rightarrow> (pg_result \<Rightarrow> 'a throws) \<Rightarrow> conn \<Rightarrow> 'd db_st \<Rightarrow>
   'a throws \<times> 'd db_st" where
  "with_result env sql read c st =
     (case st of (p, d) \<Rightarrow>
        (case pq_exec env c (c_str (sql d)) d of (res, d1) \<Rightarrow>
           (case read res of
              Inl e \<Rightarrow> (Inl e, (p, d1))
            | Inr x \<Rightarrow> (Inr x, (p, PQclear env res d1)))))"

definition db_query ::
  "'d pg_env \<Rightarrow> 'a \<Rightarrow> ('d \<Rightarrow> string) \<Rightarrow> (pg_result \<Rightarrow> 'a throws) \<Rightarrow> 'd db_st \<Rightarrow>
   'a throws \<times> 'd db_st" where
  "db_query env dflt sql read =
     with_guard (DbPool_Acquire env) (DbPool_Release env) (Inr dflt) (with_result env sql read)"

section \<open>Statements\<close>

definition quoted :: "string \<Rightarrow> string" where
  "quoted s = [CHR 0x27] @ s @ [CHR 0x27]"

definition sql_GetUserPassword :: "i64 \<Rightarrow> string" where
  "sql_GetUserPassword uid = ''SELECT password FROM t_user WHERE id='' @ to_string uid"

definition sql_SaveMessage :: "string \<Rightarrow> i64 \<Rightarrow> i64 \<Rightarrow> string \<Rightarrow> i64 \<Rightarrow> string" where
  "sql_SaveMessage msg_id from_uid to_uid content now =
     ''INSERT INTO t_chat_msg (msg_id, from_uid, to_uid, content, create_time) VALUES ('' @
     quoted msg_id @ '', '' @ to_string from_uid @ '', '' @ to_string to_uid @ '', '' @
     quoted content @ '', '' @ to_string now @ '')''"

definition sql_GetofflineMsgs :: "i64 \<Rightarrow> i64 \<Rightarrow> string" where
  "sql_GetofflineMsgs uid last_msg_id =
     ''SELECT msg_id, from_uid, to_uid, content, create_time FROM t_chat_msg WHERE to_uid='' @
     to_string uid @ '' AND id > '' @ to_string last_msg_id @ '' ORDER BY id ASC LIMIT 100''"

definition sql_CreateUser :: "string \<Rightarrow> string \<Rightarrow> string \<Rightarrow> string" where
  "sql_CreateUser username password email =
     ''INSERT INTO t_user (username, password, email) VALUES ('' @ quoted username @ '', '' @
     quoted password @ '', '' @ quoted email @ '') RETURNING id''"

definition sql_CheckUserByEmail :: "string \<Rightarrow> string" where
  "sql_CheckUserByEmail email =
     ''SELECT id, username, password FROM t_user WHERE email='' @ quoted email"

definition sql_CreateFriendRequest :: "i64 \<Rightarrow> i64 \<Rightarrow> string \<Rightarrow> i64 \<Rightarrow> string" where
  "sql_CreateFriendRequest from_uid to_uid reason now =
     ''INSERT INTO t_friend_request (from_uid, to_uid, reason, create_time) VALUES ('' @
     to_string from_uid @ '', '' @ to_string to_uid @ '', '' @ quoted reason @ '', '' @
     to_string now @ '') RETURNING id''"

definition sql_GetFriendRequestsForUser :: "i64 \<Rightarrow> string" where
  "sql_GetFriendRequestsForUser uid =
     ''SELECT id, from_uid, to_uid, reason, create_time, status FROM t_friend_request WHERE to_uid='' @
     to_string uid @ '' AND status=0 ORDER BY id ASC''"

definition sql_SelectRequest :: "i64 \<Rightarrow> string" where
  "sql_SelectRequest req_id =
     ''SELECT from_uid, to_uid FROM t_friend_request WHERE id='' @ to_string req_id @ '' AND status=0''"

definition sql_InsertFriend :: "i64 \<Rightarrow> i64 \<Rightarrow> i64 \<Rightarrow> string" where
  "sql_InsertFriend uid friend_uid now =
     ''INSERT INTO t_friend (uid, friend_uid, create_time) VALUES ('' @ to_string uid @ '', '' @
     to_string friend_uid @ '', '' @ to_string now @ '') ON CONFLICT DO NOTHING''"

definition sql_AcceptRequest :: "i64 \<Rightarrow> string" where
  "sql_AcceptRequest req_id = ''UPDATE t_friend_request SET status=1 WHERE id='' @ to_string req_id"

definition sql_AreFriends :: "i64 \<Rightarrow> i64 \<Rightarrow> string" where
  "sql_AreFriends uid1 uid2 =
     ''SELECT 1 FROM t_friend WHERE uid='' @ to_string uid1 @ '' AND friend_uid='' @ to_string uid2 @
     '' LIMIT 1''"

definition sql_ListFriends :: "i64 \<Rightarrow> string" where
  "sql_ListFriends uid = ''SELECT friend_uid FROM t_friend WHERE uid='' @ to_string uid"

definition sql_SaveGroupMessage :: "string \<Rightarrow> i64 \<Rightarrow> i64 \<Rightarrow> string \<Rightarrow> i64 \<Rightarrow> string" where
  "sql_SaveGroupMessage msg_id group_id from_uid content now =
     ''INSERT INTO t_group_msg (msg_id, group_id, from_uid, content, create_time) VALUES ('' @
     quoted msg_id @ '', '' @ to_string group_id @ '', '' @ to_string from_uid @ '', '' @
     quoted content @ '', '' @ to_string now @ '')''"

definition sql_GetGroupMsgs :: "i64 \<Rightarrow> i64 \<Rightarrow> string" where
  "sql_GetGroupMsgs group_id last_msg_id =
     ''SELECT msg_id, group_id, from_uid, content, create_time FROM t_group_msg WHERE group_id='' @
     to_string group_id @ '' AND id > '' @ to_string last_msg_id @ '' ORDER BY id ASC LIMIT 100''"

section \<open>Operations\<close>

definition command_ok :: "pg_result \<Rightarrow> bool throws" where
  "command_ok res = Inr (PQresultStatus res = PGRES_COMMAND_OK)"

definition Execute :: "'d pg_env \<Rightarrow> string \<Rightarrow> 'd db_st \<Rightarrow> bool throws \<times> 'd db_st" where
  "Execute env sql = db_query env False (\<lambda>d. sql) command_ok"

definition GetUserPassword :: "'d pg_env \<Rightarrow> i64 \<Rightarrow> 'd db_st \<Rightarrow> string throws \<times> 'd db_st" where
  "GetUserPassword env uid = db_query env [] (\<lambda>d. sql_GetUserPassword uid)
     (\<lambda>res. if PQresultStatus res \<noteq> PGRES_TUPLES_OK then Inr []
            else if 0 < PQntuples res then get_text res 0 0 else Inr [])"

definition SaveMessage ::
  "'d pg_env \<Rightarrow> string \<Rightarrow> i64 \<Rightarrow> i64 \<Rightarrow> string \<Rightarrow> 'd db_st \<Rightarrow> bool throws \<times> 'd db_st" where
  "SaveMessage env msg_id from_uid to_uid content = db_query env False
     (\<lambda>d. sql_SaveMessage msg_id from_uid to_uid content (pg_time env d)) command_ok"

definition offline_row :: "pg_result \<Rightarrow> nat \<Rightarrow> ChatMsg throws" where
  "offline_row res i =
     ebind (get_int64 res i 1) (\<lambda>from_uid.
     ebind (get_int64 res i 2) (\<lambda>to_uid.
     ebind (get_text res i 3) (\<lambda>content.
     ebind (get_int64 res i 4) (\<lambda>create_time.
       Inr (ChatMsg_default\<lparr>cm_from_uid := from_uid, cm_to_uid := to_uid, cm_content := content,
              cm_create_time := create_time\<rparr>)))))"

definition GetofflineMsgs ::
  "'d pg_env \<Rightarrow> i64 \<Rightarrow> i64 \<Rightarrow> 'd db_st \<Rightarrow> ChatMsg list throws \<times> 'd db_st" where
  "GetofflineMsgs env uid last_msg_id = db_query env []
     (\<lambda>d. sql_GetofflineMsgs uid last_msg_id)
     (\<lambda>res. if PQresultStatus res = PGRES_TUPLES_OK
            then emap (offline_row res) [0..<PQntuples res] else Inr [])"

definition CreateUser ::
  "'d pg_env \<Rightarrow> string \<Rightarrow> string \<Rightarrow> string \<Rightarrow> 'd db_st \<Rightarrow> i64 throws \<times> 'd db_st" where
  "CreateUser env username password email = db_query env (-1)
     (\<lambda>d. sql_CreateUser username password email)
     (\<lambda>res. if PQresultStatus res \<noteq> PGRES_TUPLES_OK then Inr (-1) else get_int64 res 0 0)"

text \<open>The result is the returned flag with the final value of \<open>user_info\<close>.\<close>

definition CheckUserByEmail ::
  "'d pg_env \<Rightarrow> string \<Rightarrow> string \<Rightarrow> HttpLoginRes \<Rightarrow> 'd db_st \<Rightarrow>
   (bool \<times> HttpLoginRes) throws \<times> 'd db_st" where
  "CheckUserByEmail env email password user_info = db_query env (False, user_info)
     (\<lambda>d. sql_CheckUserByEmail email)
     (\<lambda>res. if PQresultStatus res \<noteq> PGRES_TUPLES_OK \<or> PQntuples res = 0
            then Inr (False, user_info)
            else ebind (get_text res 0 2) (\<lambda>db_pass.
              if db_pass \<noteq> password then Inr (False, user_info)
              else ebind (get_int64 res 0 0) (\<lambda>uid.
                   ebind (get_text res 0 1) (\<lambda>nickname.
                     Inr (True, user_info\<lparr>hr_uid := uid, hr_nickname := nickname, hr_token := db_pass\<rparr>)))))"

text \<open>The result is the returned flag with the final value of \<open>out_req_id\<close>.\<close>

definition CreateFriendRequest ::
  "'d pg_env \<Rightarrow> i64 \<Rightarrow> i64 \<Rightarrow> string \<Rightarrow> i64 \<Rightarrow> 'd db_st \<Rightarrow> (bool \<times> i64) throws \<times> 'd db_st"
  where
  "CreateFriendRequest env from_uid to_uid reason out_req_id = db_query env (False, out_req_id)
     (\<lambda>d. sql_CreateFriendRequest from_uid to_uid reason (pg_time env d))
     (\<lambda>res. if PQresultStatus res \<noteq> PGRES_TUPLES_OK then Inr (False, out_req_id)
            else ebind (get_int64 res 0 0) (\<lambda>req_id. Inr (True, req_id)))"

definition friend_request_row :: "pg_result \<Rightarrow> nat \<Rightarrow> FriendRequest throws" where
  "friend_request_row res i =
     ebind (get_int64 res i 0) (\<lambda>req_id.
     ebind (get_int64 res i 1) (\<lambda>from_uid.
     ebind (get_int64 res i 2) (\<lambda>to_uid.
     ebind (get_text res i 3) (\<lambda>reason.
     ebind (get_int64 res i 4) (\<lambda>create_time.
     ebind (get_int32 res i 5) (\<lambda>status.
       Inr \<lparr>fr_req_id = req_id, fr_from_uid = from_uid, fr_to_uid = to_uid, fr_reason = reason,
            fr_create_time = create_time, fr_status = status\<rparr>))))))"

definition GetFriendRequestsForUser ::
  "'d pg_env \<Rightarrow> i64 \<Rightarrow> 'd db_st \<Rightarrow> FriendRequest list throws \<times> 'd db_st" where
  "GetFriendRequestsForUser env uid = db_query env []
     (\<lambda>d. sql_GetFriendRequestsForUser uid)
     (\<lambda>res. if PQresultStatus res = PGRES_TUPLES_OK
            then emap (friend_request_row res) [0..<PQntuples res] else Inr [])"

text \<open>
  \<open>AcceptFriendRequest\<close> runs four statements on one connection. The clock is read once,
  after the request has been found, and both inserts run before either result is looked at.
  What the final update answers is ignored.
\<close>

definition accept_find :: "pg_result \<Rightarrow> (i64 \<times> i64) option throws" where
  "accept_find res =
     (if PQresultStatus res \<noteq> PGRES_TUPLES_OK \<or> PQntuples res = 0 then Inr None
      else ebind (get_int64 res 0 0) (\<lambda>from_uid.
           ebind (get_int64 res 0 1) (\<lambda>to_uid. Inr (Some (from_uid, to_uid)))))"

definition accept_insert ::
  "'d pg_env \<Rightarrow> i64 \<Rightarrow> i64 \<Rightarrow> conn \<Rightarrow> 'd db_st \<Rightarrow> bool \<times> 'd db_st" where
  "accept_insert env from_uid to_uid c st =
     (case st of (p, d) \<Rightarrow>
        let now = pg_time env d in
        (case pq_exec env c (c_str (sql_InsertFriend from_uid to_uid now)) d of (r1, d1) \<Rightarrow>
         case pq_exec env c (c_str (sql_InsertFriend to_uid from_uid now)) d1 of (r2, d2) \<Rightarrow>
           (PQresultStatus r1 = PGRES_COMMAND_OK \<and> PQresultStatus r2 = PGRES_COMMAND_OK,
            (p, PQclear env r2 (PQclear env r1 d2)))))"

definition accept_body :: "'d pg_env \<Rightarrow> i64 \<Rightarrow> conn \<Rightarrow> 'd db_st \<Rightarrow> bool throws \<times> 'd db_st" where
  "accept_body env req_id c st =
     (case with_result env (\<lambda>d. sql_SelectRequest req_id) accept_find c st of
        (Inl e, st1) \<Rightarrow> (Inl e, st1)
      | (Inr None, st1) \<Rightarrow> (Inr False, st1)
      | (Inr (Some (from_uid, to_uid)), st1) \<Rightarrow>
          (case accept_insert env from_uid to_uid c st1 of
             (False, st2) \<Rightarrow> (Inr False, st2)
           | (True, st2) \<Rightarrow> with_result env (\<lambda>d. sql_AcceptRequest req_id) (\<lambda>res. Inr True) c st2))"

definition AcceptFriendRequest :: "'d pg_env \<Rightarrow> i64 \<Rightarrow> 'd db_st \<Rightarrow> bool throws \<times> 'd db_st" where
  "AcceptFriendRequest env req_id =
     with_guard (DbPool_Acquire env) (DbPool_Release env) (Inr False) (accept_body env req_id)"

definition AreFriends :: "'d pg_env \<Rightarrow> i64 \<Rightarrow> i64 \<Rightarrow> 'd db_st \<Rightarrow> bool throws \<times> 'd db_st" where
  "AreFriends env uid1 uid2 = db_query env False (\<lambda>d. sql_AreFriends uid1 uid2)
     (\<lambda>res. Inr (PQresultStatus res = PGRES_TUPLES_OK \<and> 0 < PQntuples res))"

definition ListFriends :: "'d pg_env \<Rightarrow> i64 \<Rightarrow> 'd db_st \<Rightarrow> i64 list throws \<times> 'd db_st" where
  "ListFriends env uid = db_query env [] (\<lambda>d. sql_ListFriends uid)
     (\<lambda>res. if PQresultStatus res = PGRES_TUPLES_OK
            then emap (\<lambda>i. get_int64 res i 0) [0..<PQntuples res] else Inr [])"

definition SaveGroupMessage ::
  "'d pg_env \<Rightarrow> string \<Rightarrow> i64 \<Rightarrow> i64 \<Rightarrow> string \<Rightarrow> 'd db_st \<Rightarrow> bool throws \<times> 'd db_st" where
  "SaveGroupMessage env msg_id group_id from_uid content = db_query env False
     (\<lambda>d. sql_SaveGroupMessage msg_id group_id from_uid content (pg_time env d)) command_ok"

definition group_row :: "pg_result \<Rightarrow> nat \<Rightarrow> ChatMsg throws" where
  "group_row res i =
     ebind (get_int64 res i 2) (\<lambda>from_uid.
     ebind (get_int64 res i 1) (\<lambda>group_id.
     ebind (get_text res i 3) (\<lambda>content.
     ebind (get_int64 res i 4) (\<lambda>create_time.
       Inr (ChatMsg_default\<lparr>cm_from_uid := from_uid, cm_to_uid := group_id, cm_content := content,
              cm_create_time := create_time\<rparr>)))))"

definition GetGroupMsgs ::
  "'d pg_env \<Rightarrow> i64 \<Rightarrow> i64 \<Rightarrow> 'd db_st \<Rightarrow> ChatMsg list throws \<times> 'd db_st" where
  "GetGroupMsgs env group_id last_msg_id = db_query env []
     (\<lambda>d. sql_GetGroupMsgs group_id last_msg_id)
     (\<lambda>res. if PQresultStatus res = PGRES_TUPLES_OK
            then emap (group_row res) [0..<PQntuples res] else Inr [])"

section \<open>Every call\<close>

text \<open>The public functions of the class, with their arguments.\<close>

datatype db_call =
    Call_Execute string
  | Call_GetUserPassword i64
  | Call_SaveMessage string i64 i64 string
  | Call_GetofflineMsgs i64 i64
  | Call_CreateUser string string string
  | Call_CheckUserByEmail string string HttpLoginRes
  | Call_CreateFriendRequest i64 i64 string i64
  | Call_GetFriendRequestsForUser i64
  | Call_AcceptFriendRequest i64
  | Call_AreFriends i64 i64
  | Call_ListFriends i64
  | Call_SaveGroupMessage string i64 i64 string
  | Call_GetGroupMsgs i64 i64

text \<open>What a caller sees when it drops the value: the exception, if one escaped.\<close>

definition escaped :: "'a throws \<times> 's \<Rightarrow> exn option \<times> 's" where
  "escaped rs = ((case fst rs of Inl e \<Rightarrow> Some e | Inr x \<Rightarrow> None), snd rs)"

fun run_call :: "'d pg_env \<Rightarrow> db_call \<Rightarrow> 'd db_st \<Rightarrow> exn option \<times> 'd db_st" where
  "run_call env (Call_Execute sql) st = escaped (Execute env sql st)"
| "run_call env (Call_GetUserPassword uid) st = escaped (GetUserPassword env uid st)"
| "run_call env (Call_SaveMessage m f t c) st = escaped (SaveMessage env m f t c st)"
| "run_call env (Call_GetofflineMsgs uid since) st = escaped (GetofflineMsgs env uid since st)"
| "run_call env (Call_CreateUser u p e) st = escaped (CreateUser env u p e st)"
| "run_call env (Call_CheckUserByEmail e p info) st = escaped (CheckUserByEmail env e p info st)"
| "run_call env (Call_CreateFriendRequest f t r req) st = escaped (CreateFriendRequest env f t r req st)"
| "run_call env (Call_GetFriendRequestsForUser uid) st = escaped (GetFriendRequestsForUser env uid st)"
| "run_call env (Call_AcceptFriendRequest req) st = escaped (AcceptFriendRequest env req st)"
| "run_call env (Call_AreFriends u v) st = escaped (AreFriends env u v st)"
| "run_call env (Call_ListFriends uid) st = escaped (ListFriends env uid st)"
| "run_call env (Call_SaveGroupMessage m g f c) st = escaped (SaveGroupMessage env m g f c st)"
| "run_call env (Call_GetGroupMsgs g since) st = escaped (GetGroupMsgs env g since st)"

lemmas db_call_defs =
  Execute_def GetUserPassword_def SaveMessage_def GetofflineMsgs_def CreateUser_def
  CheckUserByEmail_def CreateFriendRequest_def GetFriendRequestsForUser_def
  AcceptFriendRequest_def AreFriends_def ListFriends_def SaveGroupMessage_def GetGroupMsgs_def

text \<open>A reader of results that does not throw on the null result.\<close>

definition null_safe :: "(pg_result \<Rightarrow> 'a throws) \<Rightarrow> bool" where
  "null_safe f \<longleftrightarrow> (\<forall>e. f NullResult \<noteq> Inl e)"

lemma PQ_null [simp]: "PQresultStatus NullResult = PGRES_FATAL_ERROR" "PQntuples NullResult = 0"
  by (simp_all add: PQresultStatus_def PQntuples_def)

text \<open>All calls but \<open>AcceptFriendRequest\<close> are one statement in the scope of a guard.\<close>

lemma run_call_cases:
  assumes "\<And>dflt sql (read :: pg_result \<Rightarrow> bool throws). null_safe read \<Longrightarrow> P (escaped (db_query env dflt sql read st))"
    and "\<And>dflt sql (read :: pg_result \<Rightarrow> string throws). null_safe read \<Longrightarrow> P (escaped (db_query env dflt sql read st))"
    and "\<And>dflt sql (read :: pg_result \<Rightarrow> ChatMsg list throws). null_safe read \<Longrightarrow> P (escaped (db_query env dflt sql read st))"
    and "\<And>dflt sql (read :: pg_result \<Rightarrow> i64 throws). null_safe read \<Longrightarrow> P (escaped (db_query env dflt sql read st))"
    and "\<And>dflt sql (read :: pg_result \<Rightarrow> (bool \<times> HttpLoginRes) throws). null_safe read \<Longrightarrow> P (escaped (db_query env dflt sql read st))"
    and "\<And>dflt sql (read :: pg_result \<Rightarrow> (bool \<times> i64) throws). null_safe read \<Longrightarrow> P (escaped (db_query env dflt sql read st))"
    and "\<And>dflt sql (read :: pg_result \<Rightarrow> FriendRequest list throws). null_safe read \<Longrightarrow> P (escaped (db_query env dflt sql read st))"
    and "\<And>dflt sql (read :: pg_result \<Rightarrow> i64 list throws). null_safe read \<Longrightarrow> P (escaped (db_query env dflt sql read st))"
    and "\<And>req. P (escaped (AcceptFriendRequest env req st))"
  shows "P (run_call env call st)"
  by (cases call; simp only: run_call.simps; (rule assms)?;
      simp only: Execute_def GetUserPassword_def SaveMessage_def GetofflineMsgs_def CreateUser_def
        CheckUserByEmail_def CreateFriendRequest_def GetFriendRequestsForUser_def
        AreFriends_def ListFriends_def SaveGroupMessage_def GetGroupMsgs_def; rule assms;
      simp add: null_safe_def command_ok_def)

section \<open>The guard goes back\<close>

lemma with_result_pool: "with_result env sql rd c st = (r, st') \<Longrightarrow> fst st = fst st'"
  by (cases st) (auto simp: with_result_def split: prod.splits sum.splits)

lemma accept_insert_pool: "accept_insert env f t c st = (r, st') \<Longrightarrow> fst st = fst st'"
  by (cases st) (auto simp: accept_insert_def Let_def split: prod.splits)

lemma accept_body_pool: "accept_body env req c st = (r, st') \<Longrightarrow> fst st = fst st'"
  by (auto simp: accept_body_def split: prod.splits sum.splits option.splits bool.splits
      dest!: with_result_pool accept_insert_pool)

lemma db_query_balanced:
  assumes "db_ok env mx st"
  shows "db_ok env mx (snd (db_query env dflt sql rd st)) \<and> db_lent (snd (db_query env dflt sql rd st)) = db_lent st"
proof -
  obtain r st' where q: "db_query env dflt sql rd st = (r, st')" by (metis surj_pair)
  from dbg.with_guard_balanced [OF assms with_result_pool q [unfolded db_query_def]] q
  show ?thesis by simp
qed

lemma AcceptFriendRequest_balanced:
  assumes "db_ok env mx st"
  shows "db_ok env mx (snd (AcceptFriendRequest env req st)) \<and>
    db_lent (snd (AcceptFriendRequest env req st)) = db_lent st"
proof -
  obtain r st' where q: "AcceptFriendRequest env req st = (r, st')" by (metis surj_pair)
  from dbg.with_guard_balanced [OF assms accept_body_pool q [unfolded AcceptFriendRequest_def]] q
  show ?thesis by simp
qed

text \<open>
  C28: every function of the database client hands its connection back: the pool's books are
  in order and exactly as many connections are out as before the call, on every path,
  whether the call fails, succeeds, or lets an exception escape.
\<close>

theorem db_call_balanced:
  assumes "db_ok env mx st" and "run_call env call st = (e, st')"
  shows "db_ok env mx st' \<and> db_lent st' = db_lent st"
proof -
  have "db_ok env mx (snd (run_call env call st)) \<and> db_lent (snd (run_call env call st)) = db_lent st"
    by (rule run_call_cases) (simp_all only: escaped_def snd_conv db_query_balanced [OF assms(1)]
        AcceptFriendRequest_balanced [OF assms(1)] simp_thms)
  with assms(2) show ?thesis by simp
qed

section \<open>Results are cleared, unless an exception escapes\<close>

text \<open>
  Frames of the pool operations, for anything that opening and closing connections and
  waiting leave alone.
\<close>

definition conn_frame :: "'d pg_env \<Rightarrow> ('d \<Rightarrow> 'x) \<Rightarrow> bool" where
  "conn_frame env I \<longleftrightarrow>
     (\<forall>s d. I (snd (pq_connectdb env s d)) = I d) \<and> (\<forall>c d. I (pq_finish env c d) = I d) \<and>
     (\<forall>st. I (snd (pool_others env st)) = I (snd st)) \<and>
     (\<forall>st. \<forall>f \<in> set (pool_wakes env st). \<forall>st'. I (snd (f st')) = I (snd st'))"

lemma conn_frameD:
  assumes "conn_frame env I"
  shows "I (snd (pq_connectdb env s d)) = I d" and "I (pq_finish env c d) = I d"
    and "I (snd (pool_others env st)) = I (snd st)"
    and "f \<in> set (pool_wakes env st) \<Longrightarrow> I (snd (f st')) = I (snd st')"
  using assms by (simp_all only: conn_frame_def)

text \<open>
  A ledger of the results that have been handed out by \<open>PQexec\<close> and not cleared: \<open>live\<close> reads
  it out of the world.
\<close>

definition pg_ledger :: "'d pg_env \<Rightarrow> ('d \<Rightarrow> int) \<Rightarrow> bool" where
  "pg_ledger env live \<longleftrightarrow> conn_frame env live \<and>
     (\<forall>c s d. live (snd (pq_exec env c s d)) =
        live d + (if fst (pq_exec env c s d) = NullResult then 0 else 1)) \<and>
     (\<forall>res d. live (pq_clear env res d) = live d - 1)"

lemma pg_ledgerD:
  assumes "pg_ledger env live"
  shows "conn_frame env live"
    and "live (snd (pq_exec env c q d)) = live d + (if fst (pq_exec env c q d) = NullResult then 0 else 1)"
    and "live (pq_clear env res d) = live d - 1"
  using assms by (simp_all only: pg_ledger_def)

lemma DbPool_CreateConn_frame:
  assumes "conn_frame env I" and "DbPool_CreateConn env p d = (r, d')"
  shows "I d' = I d"
proof -
  obtain o1 d1 where c: "pq_connectdb env (c_str (dp_conninfo p)) d = (o1, d1)" by fastforce
  then have "I d1 = I d" using conn_frameD(1) [OF assms(1)] by (metis snd_conv)
  with assms c show ?thesis
    by (auto simp: DbPool_CreateConn_def conn_frameD split: option.splits if_splits)
qed

lemma DbPool_scan_frame:
  assumes "conn_frame env I" and "DbPool_scan env idle made d = (x, idle', made', d')"
  shows "I d' = I d"
  using assms
  by (induction env idle made d rule: DbPool_scan.induct) (auto simp: conn_frameD split: if_splits)

lemma DbPool_turn_frame:
  assumes "conn_frame env I" and "DbPool_turn env p d = (t, p', d')"
  shows "I d' = I d"
  using assms DbPool_scan_frame [OF assms(1)]
  by (fastforce simp: DbPool_turn_def Let_def split: prod.splits option.splits)

lemma DbPool_Acquire_frame:
  assumes "conn_frame env I" and "DbPool_Acquire env st = (r, st')"
  shows "I (snd st') = I (snd st)"
proof (rule acquire_run_world [where I = I])
  show "acquire_run (db_ops env) (pool_others env) (pool_wakes env st) st = (r, st')"
    using assms(2) by (simp add: DbPool_Acquire_def)
  show "\<forall>p w t p' w'. po_turn (db_ops env) p w = (t, p', w') \<longrightarrow> I w' = I w"
    using DbPool_turn_frame [OF assms(1)] by simp
  show "\<forall>p w c w'. po_connect (db_ops env) p w = (c, w') \<longrightarrow> I w' = I w"
    using DbPool_CreateConn_frame [OF assms(1)] by simp
  show "\<forall>st. I (snd (pool_others env st)) = I (snd st)"
    using conn_frameD(3) [OF assms(1)] by blast
  show "I (snd (f st1)) = I (snd st1)" if "f \<in> set (pool_wakes env st)" for f st1
    using conn_frameD(4) [OF assms(1) that] .
qed

lemma DbPool_Release_frame:
  "conn_frame env I \<Longrightarrow> I (snd (DbPool_Release env c st)) = I (snd st)"
  by (cases st) (auto simp: DbPool_Release_def conn_frameD)

text \<open>A scope on a connection does to such a quantity what its body does.\<close>

lemma scope_frame:
  assumes "conn_frame env I"
    and "with_guard (DbPool_Acquire env) (DbPool_Release env) dflt body st = (r, st')"
  shows "(r = dflt \<and> I (snd st') = I (snd st)) \<or>
    (\<exists>c st1 st2. body c st1 = (r, st2) \<and> I (snd st1) = I (snd st) \<and> I (snd st') = I (snd st2))"
proof -
  obtain g st1 where g: "DbPool_Acquire env st = (g, st1)" by (metis surj_pair)
  note I1 = DbPool_Acquire_frame [OF assms(1) g]
  show ?thesis
  proof (cases g)
    case None
    with g I1 assms(2) show ?thesis by (simp add: with_guard_def)
  next
    case (Some c)
    obtain r2 st2 where b: "body c st1 = (r2, st2)" by (metis surj_pair)
    then have "r = r2" and "st' = DbPool_Release env c st2"
      using g Some assms(2) by (simp_all add: with_guard_def)
    with b I1 DbPool_Release_frame [OF assms(1)] show ?thesis by metis
  qed
qed

definition leaks :: "'a throws \<Rightarrow> int" where
  "leaks r = (case r of Inl e \<Rightarrow> 1 | Inr x \<Rightarrow> 0)"

lemma PQclear_live:
  "pg_ledger env live \<Longrightarrow> live (PQclear env res d) = live d - (if res = NullResult then 0 else 1)"
  by (cases res) (simp_all add: PQclear_def pg_ledgerD)

lemma with_result_live:
  assumes "pg_ledger env live" and "null_safe f" and "with_result env sql f c st = (r, st')"
  shows "live (snd st') = live (snd st) + leaks r"
proof -
  obtain p d where st: "st = (p, d)" by (cases st)
  obtain res d1 where x: "pq_exec env c (c_str (sql d)) d = (res, d1)" by fastforce
  have "live d1 = live d + (if res = NullResult then 0 else 1)"
    using pg_ledgerD(2) [OF assms(1), of c "c_str (sql d)" d] x by simp
  moreover have "f res \<noteq> Inl e" if "res = NullResult" for e
    using assms(2) that by (auto simp: null_safe_def)
  moreover have "r = f res \<and> st' = (p, case f res of Inl e \<Rightarrow> d1 | Inr y \<Rightarrow> PQclear env res d1)"
    using assms(3) x st by (auto simp: with_result_def split: sum.splits)
  ultimately show ?thesis
    using st PQclear_live [OF assms(1), of res d1] by (auto simp: leaks_def split: sum.splits if_splits)
qed

lemma accept_insert_live:
  assumes "pg_ledger env live" and "accept_insert env f t c st = (r, st')"
  shows "live (snd st') = live (snd st)"
proof -
  obtain p d where st: "st = (p, d)" by (cases st)
  let ?now = "pg_time env d"
  obtain r1 d1 where x1: "pq_exec env c (c_str (sql_InsertFriend f t ?now)) d = (r1, d1)" by fastforce
  obtain r2 d2 where x2: "pq_exec env c (c_str (sql_InsertFriend t f ?now)) d1 = (r2, d2)" by fastforce
  have "live d1 = live d + (if r1 = NullResult then 0 else 1)"
    "live d2 = live d1 + (if r2 = NullResult then 0 else 1)"
    using pg_ledgerD(2) [OF assms(1), of c "c_str (sql_InsertFriend f t ?now)" d] x1
      pg_ledgerD(2) [OF assms(1), of c "c_str (sql_InsertFriend t f ?now)" d1] x2 by simp_all
  with assms x1 x2 st show ?thesis
    by (auto simp: accept_insert_def Let_def PQclear_live)
qed

lemma accept_body_live:
  assumes "pg_ledger env live" and "accept_body env req c st = (r, st')"
  shows "live (snd st') = live (snd st) + leaks r"
proof -
  have safe: "null_safe accept_find" "null_safe (\<lambda>res. Inr True)"
    by (auto simp: null_safe_def accept_find_def PQresultStatus_def)
  obtain r1 st1 where a: "with_result env (\<lambda>d. sql_SelectRequest req) accept_find c st = (r1, st1)"
    by (metis surj_pair)
  note L1 = with_result_live [OF assms(1) safe(1) a]
  show ?thesis
  proof (cases r1)
    case (Inl e)
    with a L1 assms(2) show ?thesis by (auto simp: accept_body_def leaks_def)
  next
    case (Inr x)
    show ?thesis
    proof (cases x)
      case None
      with a L1 assms(2) Inr show ?thesis by (auto simp: accept_body_def leaks_def)
    next
      case (Some ft)
      obtain f t where ft: "ft = (f, t)" by (cases ft)
      obtain ok st2 where b: "accept_insert env f t c st1 = (ok, st2)" by (metis surj_pair)
      note L2 = accept_insert_live [OF assms(1) b]
      obtain r3 st3 where u: "with_result env (\<lambda>d. sql_AcceptRequest req) (\<lambda>res. Inr True) c st2 = (r3, st3)"
        by (metis surj_pair)
      note L3 = with_result_live [OF assms(1) safe(2) u]
      show ?thesis using a b u L1 L2 L3 assms(2) Inr Some ft
        by (cases ok) (auto simp: accept_body_def leaks_def)
    qed
  qed
qed

lemma db_query_live:
  assumes "pg_ledger env live" and "null_safe f" and "db_query env dflt sql f st = (r, st')"
  shows "live (snd st') = live (snd st) + leaks r"
proof -
  from scope_frame [OF pg_ledgerD(1) [OF assms(1)] assms(3) [unfolded db_query_def]]
  consider "r = Inr dflt" "live (snd st') = live (snd st)"
    | c st1 st2 where "with_result env sql f c st1 = (r, st2)" "live (snd st1) = live (snd st)"
      "live (snd st') = live (snd st2)" by blast
  then show ?thesis
  proof cases
    case 1
    then show ?thesis by (simp add: leaks_def)
  next
    case 2
    with with_result_live [OF assms(1,2) 2(1)] show ?thesis by simp
  qed
qed

lemma AcceptFriendRequest_live:
  assumes "pg_ledger env live" and "AcceptFriendRequest env req st = (r, st')"
  shows "live (snd st') = live (snd st) + leaks r"
proof -
  from scope_frame [OF pg_ledgerD(1) [OF assms(1)] assms(2) [unfolded AcceptFriendRequest_def]]
  consider "r = Inr False" "live (snd st') = live (snd st)"
    | c st1 st2 where "accept_body env req c st1 = (r, st2)" "live (snd st1) = live (snd st)"
      "live (snd st') = live (snd st2)" by blast
  then show ?thesis
  proof cases
    case 1
    then show ?thesis by (simp add: leaks_def)
  next
    case 2
    with accept_body_live [OF assms(1) 2(1)] show ?thesis by simp
  qed
qed

lemma db_query_escaped:
  assumes "pg_ledger env live" and "null_safe f"
  shows "live (snd (snd (escaped (db_query env dflt sql f st)))) =
    live (snd st) + (if fst (escaped (db_query env dflt sql f st)) = None then 0 else 1)"
proof -
  obtain r st' where q: "db_query env dflt sql f st = (r, st')" by (metis surj_pair)
  from db_query_live [OF assms q] show ?thesis
    by (cases r) (simp_all add: q escaped_def leaks_def)
qed

lemma AcceptFriendRequest_escaped:
  assumes "pg_ledger env live"
  shows "live (snd (snd (escaped (AcceptFriendRequest env req st)))) =
    live (snd st) + (if fst (escaped (AcceptFriendRequest env req st)) = None then 0 else 1)"
proof -
  obtain r st' where q: "AcceptFriendRequest env req st = (r, st')" by (metis surj_pair)
  from AcceptFriendRequest_live [OF assms q] show ?thesis
    by (cases r) (simp_all add: q escaped_def leaks_def)
qed

text \<open>
  C29: a call of the database client clears every \<open>PGresult\<close> it receives, also when the
  statement fails, except when \<open>std::stoll\<close>, \<open>std::stoi\<close> or a null value throws: then exactly
  one result is leaked.
\<close>

theorem db_call_leaks_iff_throws:
  assumes "pg_ledger env live" and "run_call env call st = (e, st')"
  shows "live (snd st') = live (snd st) + (if e = None then 0 else 1)"
proof -
  have "live (snd (snd (run_call env call st))) =
      live (snd st) + (if fst (run_call env call st) = None then 0 else 1)"
    by (rule run_call_cases) (rule db_query_escaped AcceptFriendRequest_escaped; (rule assms | assumption))+
  with assms(2) show ?thesis by simp
qed

text \<open>A server that answers every statement with the single row \<open>x\<close>, and counts results.\<close>

definition leaky_pg :: "int pg_env" where
  "leaky_pg =
     \<lparr>pq_connectdb = (\<lambda>s d. (Some 3, d)), pq_status_ok = (\<lambda>c d. True), pq_finish = (\<lambda>c d. d),
      pq_exec = (\<lambda>c s d. (PGresult PGRES_TUPLES_OK [[''x'']], d + 1)),
      pq_clear = (\<lambda>r d. d - 1), pg_time = (\<lambda>d. 0), pool_others = (\<lambda>st. st),
      pool_wakes = (\<lambda>st. [])\<rparr>"

lemma leaky_pg_ledger: "pg_ledger leaky_pg (\<lambda>d. d)"
  by (simp add: pg_ledger_def conn_frame_def leaky_pg_def)

lemma leaky_pg_ok: "db_ok leaky_pg 20 (\<lparr>dp_conninfo = [], dp_min_pool = 2, dp_max_pool = 20,
    dp_idle = [3], dp_total_created = 1\<rparr>, d)"
  by (simp add: db_ok_def pg_quiet_def leaky_pg_def pool_ok_def)

abbreviation one_conn_pool :: db_pool where
  "one_conn_pool \<equiv> \<lparr>dp_conninfo = [], dp_min_pool = 2, dp_max_pool = 20, dp_idle = [3],
     dp_total_created = 1\<rparr>"

lemma leaky_CreateUser:
  "run_call leaky_pg (Call_CreateUser u p e) (one_conn_pool, d) =
     (Some InvalidArgument, (one_conn_pool, d + 1))"
proof -
  have acq: "DbPool_Acquire leaky_pg (one_conn_pool, d) = (Some 3, (one_conn_pool\<lparr>dp_idle := []\<rparr>, d))"
    by (simp add: DbPool_Acquire_def DbPool_turn_def DbPool_IsHealthy_def leaky_pg_def)
  have "stoll ''x'' = Inl InvalidArgument"
    by (simp add: stoll_def strtol10_def is_space_def is_digit_def)
  then have body: "with_result leaky_pg sql (\<lambda>res. if PQresultStatus res \<noteq> PGRES_TUPLES_OK then Inr (-1)
      else get_int64 res 0 0) 3 (one_conn_pool\<lparr>dp_idle := []\<rparr>, d) =
      (Inl InvalidArgument, (one_conn_pool\<lparr>dp_idle := []\<rparr>, d + 1))" for sql
    by (simp add: with_result_def leaky_pg_def get_int64_def get_text_def PQgetvalue_def PQresultStatus_def)
  have rel: "DbPool_Release leaky_pg 3 (one_conn_pool\<lparr>dp_idle := []\<rparr>, x) = (one_conn_pool, x)" for x
    by (simp add: DbPool_Release_def DbPool_IsHealthy_def leaky_pg_def)
  show ?thesis
    by (simp only: run_call.simps CreateUser_def db_query_def with_guard_def acq prod.case option.case body rel)
      (simp add: escaped_def)
qed

theorem db_call_leaks_iff_throws_witness:
  "\<exists>st'. run_call leaky_pg (Call_CreateUser ''u'' ''p'' ''e'') (one_conn_pool, 0) =
     (Some InvalidArgument, st') \<and> snd st' = 1"
  using db_call_leaks_iff_throws [OF leaky_pg_ledger leaky_CreateUser [of "''u''" "''p''" "''e''" 0]]
    leaky_CreateUser by simp

theorem db_call_balanced_witness:
  "\<exists>st'. run_call leaky_pg (Call_CreateUser ''u'' ''p'' ''e'') (one_conn_pool, 0) =
     (Some InvalidArgument, st') \<and> db_lent st' = db_lent (one_conn_pool, 0 :: int)"
  using db_call_balanced [OF leaky_pg_ok leaky_CreateUser [of "''u''" "''p''" "''e''" 0]]
    leaky_CreateUser by blast

section \<open>Parameters in statements\<close>

text \<open>
  The client pastes its parameters between apostrophes. As long as none of them contains an
  apostrophe, the statement determines them.
\<close>

definition quote_free :: "string \<Rightarrow> bool" where
  "quote_free s \<longleftrightarrow> CHR 0x27 \<notin> set s"

lemma quoted_append_inject:
  assumes "quote_free s" and "quote_free s'"
  shows "quoted s @ t = quoted s' @ t' \<longleftrightarrow> s = s' \<and> t = t'"
  using assms append_sep_inject [of s "CHR 0x27" t s' t'] by (auto simp: quoted_def quote_free_def)

lemma quoted_inject [simp]: "quoted s = quoted s' \<longleftrightarrow> s = s'"
  by (simp add: quoted_def)

text \<open>
  C32: \<open>CreateUser\<close> sends statements that tell two different sign-ups apart only when no
  parameter contains an apostrophe: then the text determines user name, password and e-mail,
  but without that restriction a part of one parameter can be moved into the next one, and the
  server receives the same text for two different requests.
\<close>

theorem sql_CreateUser_injective_iff_quote_free:
  "(\<forall>u p e u' p' e'. quote_free u \<and> quote_free p \<and> quote_free e \<and>
      quote_free u' \<and> quote_free p' \<and> quote_free e' \<longrightarrow>
      (sql_CreateUser u p e = sql_CreateUser u' p' e' \<longleftrightarrow> u = u' \<and> p = p' \<and> e = e')) \<and>
   (\<forall>a b p e. sql_CreateUser (a @ [CHR 0x27] @ '', '' @ [CHR 0x27] @ b) p e =
      sql_CreateUser a (b @ [CHR 0x27] @ '', '' @ [CHR 0x27] @ p) e)"
proof (intro conjI allI impI)
  fix u p e u' p' e' :: string
  assume q: "quote_free u \<and> quote_free p \<and> quote_free e \<and> quote_free u' \<and> quote_free p' \<and> quote_free e'"
  then show "sql_CreateUser u p e = sql_CreateUser u' p' e' \<longleftrightarrow> u = u' \<and> p = p' \<and> e = e'"
    unfolding sql_CreateUser_def same_append_eq by (simp add: quoted_append_inject)
next
  show "sql_CreateUser (a @ [CHR 0x27] @ '', '' @ [CHR 0x27] @ b) p e =
      sql_CreateUser a (b @ [CHR 0x27] @ '', '' @ [CHR 0x27] @ p) e" for a b p e
    by (simp add: sql_CreateUser_def quoted_def)
qed

theorem sql_CreateUser_injective_iff_quote_free_witness:
  "sql_CreateUser ''ann'' ''pw'' ''a@x'' \<noteq> sql_CreateUser ''ann'' ''pw2'' ''a@x''"
  using sql_CreateUser_injective_iff_quote_free [THEN conjunct1, rule_format,
    of "''ann''" "''pw''" "''a@x''" "''ann''" "''pw2''" "''a@x''"]
  by (simp add: quote_free_def)

text \<open>
  An e-mail address that closes the quoted parameter of \<open>CheckUserByEmail\<close> and appends a row
  of its own choice to the answer.
\<close>

definition forged_email :: "i64 \<Rightarrow> string \<Rightarrow> string \<Rightarrow> string" where
  "forged_email uid nickname password =
     [CHR 0x27] @ '' UNION SELECT '' @ to_string uid @ '', '' @ quoted nickname @ '', '' @
     [CHR 0x27] @ password"

definition forged_query :: "i64 \<Rightarrow> string \<Rightarrow> string \<Rightarrow> string" where
  "forged_query uid nickname password =
     ''SELECT id, username, password FROM t_user WHERE email='' @ quoted [] @
     '' UNION SELECT '' @ to_string uid @ '', '' @ quoted nickname @ '', '' @ quoted password"

lemma forged_text: "sql_CheckUserByEmail (forged_email uid nickname password) =
    forged_query uid nickname password"
  by (simp add: sql_CheckUserByEmail_def forged_email_def forged_query_def quoted_def)

text \<open>
  C33: whoever logs in with such an e-mail and the password written into it passes the check as
  any user it likes, provided the server evaluates the \<open>UNION\<close> of an empty selection and one
  constant row to that row.
\<close>

theorem CheckUserByEmail_forged:
  assumes "DbPool_Acquire env st = (Some c, (p, d))"
    and "pq_exec env c (c_str (forged_query uid nickname password)) d =
      (PGresult PGRES_TUPLES_OK [[to_string uid, nickname, password]], d')"
  shows "fst (CheckUserByEmail env (forged_email uid nickname password) password info st) =
    Inr (True, info\<lparr>hr_uid := uid, hr_nickname := nickname, hr_token := password\<rparr>)"
  using assms
  by (simp add: CheckUserByEmail_def db_query_def with_guard_def with_result_def forged_text
      PQresultStatus_def PQntuples_def get_int64_def get_text_def PQgetvalue_def)

text \<open>A server that evaluates the forged query.\<close>

definition union_pg :: "unit pg_env" where
  "union_pg =
     \<lparr>pq_connectdb = (\<lambda>s d. (Some 3, d)), pq_status_ok = (\<lambda>c d. True), pq_finish = (\<lambda>c d. d),
      pq_exec = (\<lambda>c s d. (if s = c_str (forged_query 1 ''root'' ''pw'')
                           then PGresult PGRES_TUPLES_OK [[to_string (1 :: i64), ''root'', ''pw'']]
                           else PGresult PGRES_TUPLES_OK [], d)),
      pq_clear = (\<lambda>r d. d), pg_time = (\<lambda>d. 0), pool_others = (\<lambda>st. st), pool_wakes = (\<lambda>st. [])\<rparr>"

theorem CheckUserByEmail_forged_witness:
  "fst (CheckUserByEmail union_pg (forged_email 1 ''root'' ''pw'') ''pw'' HttpLoginRes_default (one_conn_pool, ())) =
     Inr (True, HttpLoginRes_default\<lparr>hr_uid := 1, hr_nickname := ''root'', hr_token := ''pw''\<rparr>)"
proof (rule CheckUserByEmail_forged)
  show "DbPool_Acquire union_pg (one_conn_pool, ()) = (Some 3, (one_conn_pool\<lparr>dp_idle := []\<rparr>, ()))"
    by (simp add: DbPool_Acquire_def DbPool_turn_def DbPool_IsHealthy_def union_pg_def)
  show "pq_exec union_pg 3 (c_str (forged_query 1 ''root'' ''pw'')) () =
      (PGresult PGRES_TUPLES_OK [[to_string (1 :: i64), ''root'', ''pw'']], ())"
    by (simp add: union_pg_def)
qed

end
