(* ===== verification/Sql_Model.thy ===== *)
theory Sql_Model
  imports Db_Client
begin

text \<open>
  What the database client relies on of PostgreSQL: an abstract model of the five tables, of
  the statements the client issues and of what each of them answers and changes. A statement
  is an element of \<open>stmt\<close>, its text is the text the client builds, and \<open>pg_conforms\<close> says
  that a server that gets the text either fails and changes nothing, or does what the
  statement means. Row order is promised only where the statement has an \<open>ORDER BY\<close>; the
  serial number of a new row is any number that no row of the table has.

  \<open>Sql_Engine\<close> holds an executable server that parses the text and meets the contract.
\<close>

section \<open>Tables\<close>

record user_row =
  us_id :: i64
  us_username :: string
  us_password :: string
  us_email :: string

record msg_row =
  mr_id :: i64
  mr_msg_id :: string
  mr_from :: i64
  mr_to :: i64
  mr_content :: string
  mr_time :: i64

record request_row =
  qr_id :: i64
  qr_from :: i64
  qr_to :: i64
  qr_reason :: string
  qr_time :: i64
  qr_status :: i32

record friend_row =
  fd_uid :: i64
  fd_friend :: i64
  fd_time :: i64

record gmsg_row =
  gm_id :: i64
  gm_msg_id :: string
  gm_group :: i64
  gm_from :: i64
  gm_content :: string
  gm_time :: i64

record tables =
  tb_user :: "user_row list"
  tb_msg :: "msg_row list"
  tb_request :: "request_row list"
  tb_friend :: "friend_row list"
  tb_gmsg :: "gmsg_row list"

section \<open>Statements\<close>

datatype stmt =
    SelectPassword i64
  | InsertMsg string i64 i64 string i64
  | SelectOffline i64 i64
  | InsertUser string string string
  | SelectByEmail string
  | InsertRequest i64 i64 string i64
  | SelectPending i64
  | SelectRequest i64
  | InsertFriend i64 i64 i64
  | SetAccepted i64
  | SetRejected i64
  | SelectFriend i64 i64
  | SelectFriends i64
  | InsertGmsg string i64 i64 string i64
  | SelectGmsgs i64 i64

definition sql_RejectRequest :: "i64 \<Rightarrow> string" where
  "sql_RejectRequest req_id = ''UPDATE t_friend_request SET status=2 WHERE id='' @ to_string req_id"

fun stmt_text :: "stmt \<Rightarrow> string" where
  "stmt_text (SelectPassword uid) = sql_GetUserPassword uid"
| "stmt_text (InsertMsg m f t c now) = sql_SaveMessage m f t c now"
| "stmt_text (SelectOffline uid since) = sql_GetofflineMsgs uid since"
| "stmt_text (InsertUser u p e) = sql_CreateUser u p e"
| "stmt_text (SelectByEmail e) = sql_CheckUserByEmail e"
| "stmt_text (InsertRequest f t r now) = sql_CreateFriendRequest f t r now"
| "stmt_text (SelectPending uid) = sql_GetFriendRequestsForUser uid"
| "stmt_text (SelectRequest req) = sql_SelectRequest req"
| "stmt_text (InsertFriend u f now) = sql_InsertFriend u f now"
| "stmt_text (SetAccepted req) = sql_AcceptRequest req"
| "stmt_text (SetRejected req) = sql_RejectRequest req"
| "stmt_text (SelectFriend u v) = sql_AreFriends u v"
| "stmt_text (SelectFriends uid) = sql_ListFriends uid"
| "stmt_text (InsertGmsg m g f c now) = sql_SaveGroupMessage m g f c now"
| "stmt_text (SelectGmsgs g since) = sql_GetGroupMsgs g since"

definition clean :: "string \<Rightarrow> bool" where
  "clean s \<longleftrightarrow> quote_free s \<and> NUL \<notin> set s"

fun clean_stmt :: "stmt \<Rightarrow> bool" where
  "clean_stmt (InsertMsg m f t c now) \<longleftrightarrow> clean m \<and> clean c"
| "clean_stmt (InsertUser u p e) \<longleftrightarrow> clean u \<and> clean p \<and> clean e"
| "clean_stmt (SelectByEmail e) \<longleftrightarrow> clean e"
| "clean_stmt (InsertRequest f t r now) \<longleftrightarrow> clean r"
| "clean_stmt (InsertGmsg m g f c now) \<longleftrightarrow> clean m \<and> clean c"
| "clean_stmt _ \<longleftrightarrow> True"

section \<open>Meaning\<close>

fun sql_status :: "stmt \<Rightarrow> exec_status" where
  "sql_status (InsertMsg _ _ _ _ _) = PGRES_COMMAND_OK"
| "sql_status (InsertFriend _ _ _) = PGRES_COMMAND_OK"
| "sql_status (SetAccepted _) = PGRES_COMMAND_OK"
| "sql_status (SetRejected _) = PGRES_COMMAND_OK"
| "sql_status (InsertGmsg _ _ _ _ _) = PGRES_COMMAND_OK"
| "sql_status _ = PGRES_TUPLES_OK"

text \<open>Whether \<open>n\<close> may become the serial number of the row the statement inserts.\<close>

fun sql_fresh :: "stmt \<Rightarrow> tables \<Rightarrow> i64 \<Rightarrow> bool" where
  "sql_fresh (InsertMsg _ _ _ _ _) t n \<longleftrightarrow> 0 <s n \<and> n \<notin> mr_id ` set (tb_msg t)"
| "sql_fresh (InsertUser u _ _) t n \<longleftrightarrow>
     0 <s n \<and> n \<notin> us_id ` set (tb_user t) \<and> u \<notin> us_username ` set (tb_user t)"
| "sql_fresh (InsertRequest _ _ _ _) t n \<longleftrightarrow> 0 <s n \<and> n \<notin> qr_id ` set (tb_request t)"
| "sql_fresh (InsertGmsg _ _ _ _ _) t n \<longleftrightarrow> 0 <s n \<and> n \<notin> gm_id ` set (tb_gmsg t)"
| "sql_fresh _ t n \<longleftrightarrow> True"

definition add_friend :: "i64 \<Rightarrow> i64 \<Rightarrow> i64 \<Rightarrow> tables \<Rightarrow> tables" where
  "add_friend u f now t =
     (if \<exists>x \<in> set (tb_friend t). fd_uid x = u \<and> fd_friend x = f then t
      else t\<lparr>tb_friend := tb_friend t @ [\<lparr>fd_uid = u, fd_friend = f, fd_time = now\<rparr>]\<rparr>)"

definition set_status :: "i64 \<Rightarrow> i32 \<Rightarrow> tables \<Rightarrow> tables" where
  "set_status req status t = t\<lparr>tb_request :=
     map (\<lambda>x. if qr_id x = req then x\<lparr>qr_status := status\<rparr> else x) (tb_request t)\<rparr>"

fun sql_update :: "stmt \<Rightarrow> i64 \<Rightarrow> tables \<Rightarrow> tables" where
  "sql_update (InsertMsg m f u c now) n t = t\<lparr>tb_msg := tb_msg t @
     [\<lparr>mr_id = n, mr_msg_id = m, mr_from = f, mr_to = u, mr_content = c, mr_time = now\<rparr>]\<rparr>"
| "sql_update (InsertUser u p e) n t = t\<lparr>tb_user := tb_user t @
     [\<lparr>us_id = n, us_username = u, us_password = p, us_email = e\<rparr>]\<rparr>"
| "sql_update (InsertRequest f u r now) n t = t\<lparr>tb_request := tb_request t @
     [\<lparr>qr_id = n, qr_from = f, qr_to = u, qr_reason = r, qr_time = now, qr_status = 0\<rparr>]\<rparr>"
| "sql_update (InsertFriend u f now) n t = add_friend u f now t"
| "sql_update (SetAccepted req) n t = set_status req 1 t"
| "sql_update (SetRejected req) n t = set_status req 2 t"
| "sql_update (InsertGmsg m g f c now) n t = t\<lparr>tb_gmsg := tb_gmsg t @
     [\<lparr>gm_id = n, gm_msg_id = m, gm_group = g, gm_from = f, gm_content = c, gm_time = now\<rparr>]\<rparr>"
| "sql_update _ n t = t"

text \<open>The messages a synchronisation asks for: after a serial number, in order, 100 at most.\<close>

definition offline_msgs :: "i64 \<Rightarrow> i64 \<Rightarrow> tables \<Rightarrow> msg_row list" where
  "offline_msgs uid since t =
     take 100 (sort_key (\<lambda>x. sint (mr_id x)) (filter (\<lambda>x. mr_to x = uid \<and> since <s mr_id x) (tb_msg t)))"

definition group_msgs :: "i64 \<Rightarrow> i64 \<Rightarrow> tables \<Rightarrow> gmsg_row list" where
  "group_msgs g since t =
     take 100 (sort_key (\<lambda>x. sint (gm_id x)) (filter (\<lambda>x. gm_group x = g \<and> since <s gm_id x) (tb_gmsg t)))"

definition pending_requests :: "i64 \<Rightarrow> tables \<Rightarrow> request_row list" where
  "pending_requests uid t = sort_key (\<lambda>x. sint (qr_id x))
     (filter (\<lambda>x. qr_to x = uid \<and> qr_status x = 0) (tb_request t))"

definition open_request :: "i64 \<Rightarrow> tables \<Rightarrow> request_row list" where
  "open_request req t = filter (\<lambda>x. qr_id x = req \<and> qr_status x = 0) (tb_request t)"

definition friend_of :: "tables \<Rightarrow> i64 \<Rightarrow> i64 \<Rightarrow> bool" where
  "friend_of t u v \<longleftrightarrow> (\<exists>x \<in> set (tb_friend t). fd_uid x = u \<and> fd_friend x = v)"

fun sql_rows :: "stmt \<Rightarrow> i64 \<Rightarrow> tables \<Rightarrow> string list list" where
  "sql_rows (SelectPassword uid) n t =
     map (\<lambda>x. [us_password x]) (filter (\<lambda>x. us_id x = uid) (tb_user t))"
| "sql_rows (SelectOffline uid since) n t =
     map (\<lambda>x. [mr_msg_id x, to_string (mr_from x), to_string (mr_to x), mr_content x, to_string (mr_time x)])
       (offline_msgs uid since t)"
| "sql_rows (InsertUser u p e) n t = [[to_string n]]"
| "sql_rows (SelectByEmail e) n t =
     map (\<lambda>x. [to_string (us_id x), us_username x, us_password x]) (filter (\<lambda>x. us_email x = e) (tb_user t))"
| "sql_rows (InsertRequest f u r now) n t = [[to_string n]]"
| "sql_rows (SelectPending uid) n t =
     map (\<lambda>x. [to_string (qr_id x), to_string (qr_from x), to_string (qr_to x), qr_reason x,
                to_string (qr_time x), to_string (qr_status x)]) (pending_requests uid t)"
| "sql_rows (SelectRequest req) n t =
     map (\<lambda>x. [to_string (qr_from x), to_string (qr_to x)]) (open_request req t)"
| "sql_rows (SelectFriend u v) n t = (if friend_of t u v then [[''1'']] else [])"
| "sql_rows (SelectFriends uid) n t =
     map (\<lambda>x. [to_string (fd_friend x)]) (filter (\<lambda>x. fd_uid x = uid) (tb_friend t))"
| "sql_rows (SelectGmsgs g since) n t =
     map (\<lambda>x. [gm_msg_id x, to_string (gm_group x), to_string (gm_from x), gm_content x, to_string (gm_time x)])
       (group_msgs g since t)"
| "sql_rows _ n t = []"

lemma add_friend_simps [simp]:
  "tb_user (add_friend u v now t) = tb_user t" "tb_msg (add_friend u v now t) = tb_msg t"
  "tb_request (add_friend u v now t) = tb_request t" "tb_gmsg (add_friend u v now t) = tb_gmsg t"
  "friend_of (add_friend u v now t) x y \<longleftrightarrow> friend_of t x y \<or> (x = u \<and> y = v)"
  by (auto simp: add_friend_def friend_of_def)

lemma set_status_simps [simp]:
  "tb_user (set_status req s t) = tb_user t" "tb_msg (set_status req s t) = tb_msg t"
  "tb_friend (set_status req s t) = tb_friend t" "tb_gmsg (set_status req s t) = tb_gmsg t"
  "friend_of (set_status req s t) = friend_of t"
  by (simp_all add: set_status_def friend_of_def fun_eq_iff)

fun ordered :: "stmt \<Rightarrow> bool" where
  "ordered (SelectOffline _ _) = True"
| "ordered (SelectPending _) = True"
| "ordered (SelectGmsgs _ _) = True"
| "ordered _ = False"

fun allocates :: "stmt \<Rightarrow> bool" where
  "allocates (InsertMsg _ _ _ _ _) = True"
| "allocates (InsertUser _ _ _) = True"
| "allocates (InsertRequest _ _ _ _) = True"
| "allocates (InsertGmsg _ _ _ _ _) = True"
| "allocates _ = False"

section \<open>The contract\<close>

definition failed :: "pg_result \<Rightarrow> bool" where
  "failed res \<longleftrightarrow> PQresultStatus res = PGRES_FATAL_ERROR"

definition exec_ok :: "stmt \<Rightarrow> pg_result \<Rightarrow> tables \<Rightarrow> tables \<Rightarrow> bool" where
  "exec_ok s res t t' \<longleftrightarrow>
     (\<exists>n rows. sql_fresh s t n \<and> res = PGresult (sql_status s) rows \<and>
        (if ordered s then rows = sql_rows s n t else mset rows = mset (sql_rows s n t)) \<and>
        t' = sql_update s n t)"

definition pg_conforms :: "'d pg_env \<Rightarrow> ('d \<Rightarrow> tables) \<Rightarrow> bool" where
  "pg_conforms env data \<longleftrightarrow> conn_frame env data \<and> (\<forall>res d. data (pq_clear env res d) = data d) \<and>
     (\<forall>c s d res d'. clean_stmt s \<and> pq_exec env c (stmt_text s) d = (res, d') \<longrightarrow>
        failed res \<and> data d' = data d \<or> exec_ok s res (data d) (data d'))"

text \<open>
  A server that accepts connections and does not fail on statements that need no new serial
  number.
\<close>

definition pg_reliable :: "'d pg_env \<Rightarrow> bool" where
  "pg_reliable env \<longleftrightarrow>
     (\<forall>s d. \<exists>c d'. pq_connectdb env s d = (Some c, d') \<and> pq_status_ok env c d') \<and>
     (\<forall>c s d. clean_stmt s \<and> \<not> allocates s \<longrightarrow> \<not> failed (fst (pq_exec env c (stmt_text s) d)))"

lemma pg_conformsD:
  assumes "pg_conforms env data"
  shows "conn_frame env data" and "data (pq_clear env res d) = data d"
    and "data (PQclear env res d) = data d"
  using assms by (simp_all add: pg_conforms_def PQclear_def split: pg_result.splits)

lemma pg_conforms_exec:
  assumes "pg_conforms env data" and "clean_stmt s" and "pq_exec env c (stmt_text s) d = (res, d')"
  shows "failed res \<and> data d' = data d \<or> exec_ok s res (data d) (data d')"
  using assms unfolding pg_conforms_def by blast

end
