(* ===== verification/Sql_Engine.thy ===== *)
theory Sql_Engine
  imports Sql_Model
begin

text \<open>
  An executable server for the statements of \<open>Sql_Model\<close>: the text is parsed by templates
  made of literal pieces, numbers and quoted strings, and the statement found is applied to
  the tables. \<open>parse_stmt_text\<close> is the round trip between the statements and their texts;
  it makes the server meet the contract \<open>pg_conforms\<close>.
\<close>

section \<open>Templates\<close>

datatype piece = Lit string | Num | Str

datatype param = PNum i64 | PStr string

fun tprint :: "piece list \<Rightarrow> param list \<Rightarrow> string" where
  "tprint (Lit l # ps) xs = l @ tprint ps xs"
| "tprint (Num # ps) (PNum n # xs) = to_string n @ tprint ps xs"
| "tprint (Str # ps) (PStr s # xs) = quoted s @ tprint ps xs"
| "tprint _ _ = []"

definition num_char :: "char \<Rightarrow> bool" where
  "num_char c \<longleftrightarrow> is_digit c \<or> c = CHR ''-''"

fun tparse :: "piece list \<Rightarrow> string \<Rightarrow> param list option" where
  "tparse [] s = (if s = [] then Some [] else None)"
| "tparse (Lit l # ps) s = (if prefix l s then tparse ps (drop (length l) s) else None)"
| "tparse (Num # ps) s =
     (case stoll (takeWhile num_char s) of
        Inl e \<Rightarrow> None
      | Inr n \<Rightarrow> map_option ((#) (PNum n)) (tparse ps (dropWhile num_char s)))"
| "tparse (Str # ps) s =
     (case s of
        [] \<Rightarrow> None
      | q # rest \<Rightarrow>
          if q \<noteq> CHR 0x27 then None
          else case dropWhile (\<lambda>c. c \<noteq> CHR 0x27) rest of
                 [] \<Rightarrow> None
               | q' # rest' \<Rightarrow>
                   map_option ((#) (PStr (takeWhile (\<lambda>c. c \<noteq> CHR 0x27) rest))) (tparse ps rest'))"

text \<open>A template whose numbers end where the next literal begins, and parameters that fit it.\<close>

fun separated :: "piece list \<Rightarrow> bool" where
  "separated (Num # ps) \<longleftrightarrow>
     (case ps of [] \<Rightarrow> True | Lit (c # l) # _ \<Rightarrow> \<not> num_char c | _ \<Rightarrow> False) \<and> separated ps"
| "separated (_ # ps) \<longleftrightarrow> separated ps"
| "separated [] \<longleftrightarrow> True"

fun fits :: "piece list \<Rightarrow> param list \<Rightarrow> bool" where
  "fits [] [] \<longleftrightarrow> True"
| "fits (Lit l # ps) xs \<longleftrightarrow> fits ps xs"
| "fits (Num # ps) (PNum n # xs) \<longleftrightarrow> fits ps xs"
| "fits (Str # ps) (PStr s # xs) \<longleftrightarrow> quote_free s \<and> fits ps xs"
| "fits _ _ \<longleftrightarrow> False"

lemma to_string_num_char: "c \<in> set (to_string w) \<Longrightarrow> num_char c"
  by (auto simp: num_char_def dest: to_string_chars)

lemma number_end:
  assumes "rest = [] \<or> \<not> num_char (hd rest)"
  shows "takeWhile num_char (to_string w @ rest) = to_string w"
    and "dropWhile num_char (to_string w @ rest) = rest"
  using assms by (simp_all add: takeWhile_all dropWhile_all to_string_num_char; cases rest; simp)+

lemma quoted_end:
  assumes "quote_free s"
  shows "takeWhile (\<lambda>c. c \<noteq> CHR 0x27) (s @ CHR 0x27 # rest) = s"
    and "dropWhile (\<lambda>c. c \<noteq> CHR 0x27) (s @ CHR 0x27 # rest) = CHR 0x27 # rest"
  using assms by (simp_all add: quote_free_def takeWhile_append dropWhile_append split: if_splits)

lemma tparse_tprint:
  "separated ps \<Longrightarrow> fits ps xs \<Longrightarrow> tparse ps (tprint ps xs) = Some xs"
proof (induction ps xs rule: fits.induct)
  case (3 ps n xs)
  have "tprint ps xs = [] \<or> \<not> num_char (hd (tprint ps xs))"
    using 3 by (cases ps; cases xs) (auto split: piece.splits list.splits)
  with 3 number_end [of "tprint ps xs" n] show ?case by simp
next
  case (4 ps s xs)
  then show ?case using quoted_end [of s "tprint ps xs"] by (simp add: quoted_def)
qed simp_all

section \<open>The templates of the statements\<close>

fun stmt_template :: "stmt \<Rightarrow> piece list" where
  "stmt_template (SelectPassword _) = [Lit ''SELECT password FROM t_user WHERE id='', Num]"
| "stmt_template (InsertMsg _ _ _ _ _) =
     [Lit ''INSERT INTO t_chat_msg (msg_id, from_uid, to_uid, content, create_time) VALUES ('', Str,
      Lit '', '', Num, Lit '', '', Num, Lit '', '', Str, Lit '', '', Num, Lit '')'']"
| "stmt_template (SelectOffline _ _) =
     [Lit ''SELECT msg_id, from_uid, to_uid, content, create_time FROM t_chat_msg WHERE to_uid='', Num,
      Lit '' AND id > '', Num, Lit '' ORDER BY id ASC LIMIT 100'']"
| "stmt_template (InsertUser _ _ _) =
     [Lit ''INSERT INTO t_user (username, password, email) VALUES ('', Str, Lit '', '', Str,
      Lit '', '', Str, Lit '') RETURNING id'']"
| "stmt_template (SelectByEmail _) =
     [Lit ''SELECT id, username, password FROM t_user WHERE email='', Str]"
| "stmt_template (InsertRequest _ _ _ _) =
     [Lit ''INSERT INTO t_friend_request (from_uid, to_uid, reason, create_time) VALUES ('', Num,
      Lit '', '', Num, Lit '', '', Str, Lit '', '', Num, Lit '') RETURNING id'']"
| "stmt_template (SelectPending _) =
     [Lit ''SELECT id, from_uid, to_uid, reason, create_time, status FROM t_friend_request WHERE to_uid='',
      Num, Lit '' AND status=0 ORDER BY id ASC'']"
| "stmt_template (SelectRequest _) =
     [Lit ''SELECT from_uid, to_uid FROM t_friend_request WHERE id='', Num, Lit '' AND status=0'']"
| "stmt_template (InsertFriend _ _ _) =
     [Lit ''INSERT INTO t_friend (uid, friend_uid, create_time) VALUES ('', Num, Lit '', '', Num,
      Lit '', '', Num, Lit '') ON CONFLICT DO NOTHING'']"
| "stmt_template (SetAccepted _) = [Lit ''UPDATE t_friend_request SET status=1 WHERE id='', Num]"
| "stmt_template (SetRejected _) = [Lit ''UPDATE t_friend_request SET status=2 WHERE id='', Num]"
| "stmt_template (SelectFriend _ _) =
     [Lit ''SELECT 1 FROM t_friend WHERE uid='', Num, Lit '' AND friend_uid='', Num, Lit '' LIMIT 1'']"
| "stmt_template (SelectFriends _) = [Lit ''SELECT friend_uid FROM t_friend WHERE uid='', Num]"
| "stmt_template (InsertGmsg _ _ _ _ _) =
     [Lit ''INSERT INTO t_group_msg (msg_id, group_id, from_uid, content, create_time) VALUES ('', Str,
      Lit '', '', Num, Lit '', '', Num, Lit '', '', Str, Lit '', '', Num, Lit '')'']"
| "stmt_template (SelectGmsgs _ _) =
     [Lit ''SELECT msg_id, group_id, from_uid, content, create_time FROM t_group_msg WHERE group_id='',
      Num, Lit '' AND id > '', Num, Lit '' ORDER BY id ASC LIMIT 100'']"

fun stmt_params :: "stmt \<Rightarrow> param list" where
  "stmt_params (SelectPassword uid) = [PNum uid]"
| "stmt_params (InsertMsg m f t c now) = [PStr m, PNum f, PNum t, PStr c, PNum now]"
| "stmt_params (SelectOffline uid since) = [PNum uid, PNum since]"
| "stmt_params (InsertUser u p e) = [PStr u, PStr p, PStr e]"
| "stmt_params (SelectByEmail e) = [PStr e]"
| "stmt_params (InsertRequest f t r now) = [PNum f, PNum t, PStr r, PNum now]"
| "stmt_params (SelectPending uid) = [PNum uid]"
| "stmt_params (SelectRequest req) = [PNum req]"
| "stmt_params (InsertFriend u f now) = [PNum u, PNum f, PNum now]"
| "stmt_params (SetAccepted req) = [PNum req]"
| "stmt_params (SetRejected req) = [PNum req]"
| "stmt_params (SelectFriend u v) = [PNum u, PNum v]"
| "stmt_params (SelectFriends uid) = [PNum uid]"
| "stmt_params (InsertGmsg m g f c now) = [PStr m, PNum g, PNum f, PStr c, PNum now]"
| "stmt_params (SelectGmsgs g since) = [PNum g, PNum since]"

text \<open>The text the client builds is the template filled in.\<close>

lemma stmt_text_template: "stmt_text s = tprint (stmt_template s) (stmt_params s)"
  by (cases s) (simp_all add: sql_GetUserPassword_def sql_SaveMessage_def sql_GetofflineMsgs_def
      sql_CreateUser_def sql_CheckUserByEmail_def sql_CreateFriendRequest_def
      sql_GetFriendRequestsForUser_def sql_SelectRequest_def sql_InsertFriend_def
      sql_AcceptRequest_def sql_RejectRequest_def sql_AreFriends_def sql_ListFriends_def
      sql_SaveGroupMessage_def sql_GetGroupMsgs_def)

lemma stmt_template_separated: "separated (stmt_template s)"
  by (cases s) (simp_all add: num_char_def is_digit_def)

lemma stmt_params_fit: "clean_stmt s \<Longrightarrow> fits (stmt_template s) (stmt_params s)"
  by (cases s) (simp_all add: clean_def)

section \<open>Parsing a statement\<close>

text \<open>One statement of each kind, and the statement of that kind with other parameters.\<close>

definition stmt_kinds :: "stmt list" where
  "stmt_kinds =
     [SelectPassword 0, InsertMsg [] 0 0 [] 0, SelectOffline 0 0, InsertUser [] [] [], SelectByEmail [],
      InsertRequest 0 0 [] 0, SelectPending 0, SelectRequest 0, InsertFriend 0 0 0, SetAccepted 0,
      SetRejected 0, SelectFriend 0 0, SelectFriends 0, InsertGmsg [] 0 0 [] 0, SelectGmsgs 0 0]"

fun with_params :: "stmt \<Rightarrow> param list \<Rightarrow> stmt option" where
  "with_params (SelectPassword _) xs =
     (case xs of [PNum uid] \<Rightarrow> Some (SelectPassword uid) | _ \<Rightarrow> None)"
| "with_params (InsertMsg _ _ _ _ _) xs =
     (case xs of [PStr m, PNum f, PNum t, PStr c, PNum now] \<Rightarrow> Some (InsertMsg m f t c now) | _ \<Rightarrow> None)"
| "with_params (SelectOffline _ _) xs =
     (case xs of [PNum uid, PNum since] \<Rightarrow> Some (SelectOffline uid since) | _ \<Rightarrow> None)"
| "with_params (InsertUser _ _ _) xs =
     (case xs of [PStr u, PStr p, PStr e] \<Rightarrow> Some (InsertUser u p e) | _ \<Rightarrow> None)"
| "with_params (SelectByEmail _) xs =
     (case xs of [PStr e] \<Rightarrow> Some (SelectByEmail e) | _ \<Rightarrow> None)"
| "with_params (InsertRequest _ _ _ _) xs =
     (case xs of [PNum f, PNum t, PStr r, PNum now] \<Rightarrow> Some (InsertRequest f t r now) | _ \<Rightarrow> None)"
| "with_params (SelectPending _) xs =
     (case xs of [PNum uid] \<Rightarrow> Some (SelectPending uid) | _ \<Rightarrow> None)"
| "with_params (SelectRequest _) xs =
     (case xs of [PNum req] \<Rightarrow> Some (SelectRequest req) | _ \<Rightarrow> None)"
| "with_params (InsertFriend _ _ _) xs =
     (case xs of [PNum u, PNum f, PNum now] \<Rightarrow> Some (InsertFriend u f now) | _ \<Rightarrow> None)"
| "with_params (SetAccepted _) xs =
     (case xs of [PNum req] \<Rightarrow> Some (SetAccepted req) | _ \<Rightarrow> None)"
| "with_params (SetRejected _) xs =
     (case xs of [PNum req] \<Rightarrow> Some (SetRejected req) | _ \<Rightarrow> None)"
| "with_params (SelectFriend _ _) xs =
     (case xs of [PNum u, PNum v] \<Rightarrow> Some (SelectFriend u v) | _ \<Rightarrow> None)"
| "with_params (SelectFriends _) xs =
     (case xs of [PNum uid] \<Rightarrow> Some (SelectFriends uid) | _ \<Rightarrow> None)"
| "with_params (InsertGmsg _ _ _ _ _) xs =
     (case xs of [PStr m, PNum g, PNum f, PStr c, PNum now] \<Rightarrow> Some (InsertGmsg m g f c now) | _ \<Rightarrow> None)"
| "with_params (SelectGmsgs _ _) xs =
     (case xs of [PNum g, PNum since] \<Rightarrow> Some (SelectGmsgs g since) | _ \<Rightarrow> None)"

fun parse_as :: "stmt list \<Rightarrow> string \<Rightarrow> stmt option" where
  "parse_as [] q = None"
| "parse_as (k # ks) q =
     (case tparse (stmt_template k) q of Some xs \<Rightarrow> with_params k xs | None \<Rightarrow> parse_as ks q)"

definition parse_stmt :: "string \<Rightarrow> stmt option" where
  "parse_stmt q = parse_as stmt_kinds q"

fun head_lit :: "piece list \<Rightarrow> string" where
  "head_lit (Lit l # ps) = l"
| "head_lit ps = []"

lemma stmt_text_head: "\<exists>rest. stmt_text s = head_lit (stmt_template s) @ rest"
  by (cases s) (auto simp: stmt_text_template)

lemma parse_as_skip:
  assumes "\<And>rest. \<not> prefix (head_lit (stmt_template k)) (head_lit (stmt_template s) @ rest)"
  shows "parse_as (k # ks) (stmt_text s) = parse_as ks (stmt_text s)"
proof -
  have "\<not> prefix (head_lit (stmt_template k)) (stmt_text s)"
    using stmt_text_head [of s] assms by auto
  then show ?thesis by (cases k) simp_all
qed

lemma parse_own:
  assumes "clean_stmt s" and "stmt_template k = stmt_template s"
  shows "parse_as (k # ks) (stmt_text s) = with_params k (stmt_params s)"
  using tparse_tprint [OF stmt_template_separated stmt_params_fit [OF assms(1)]] assms(2)
  by (simp add: stmt_text_template)

lemma parse_stmt_text:
  assumes "clean_stmt s"
  shows "parse_stmt (stmt_text s) = Some s"
  using assms unfolding parse_stmt_def stmt_kinds_def
  by (cases s) (simp_all del: parse_as.simps stmt_text.simps add: parse_as_skip parse_own)

section \<open>The server\<close>

fun serials :: "stmt \<Rightarrow> tables \<Rightarrow> i64 list" where
  "serials (InsertMsg _ _ _ _ _) t = map mr_id (tb_msg t)"
| "serials (InsertUser _ _ _) t = map us_id (tb_user t)"
| "serials (InsertRequest _ _ _ _) t = map qr_id (tb_request t)"
| "serials (InsertGmsg _ _ _ _ _) t = map gm_id (tb_gmsg t)"
| "serials _ t = []"

definition next_serial :: "stmt \<Rightarrow> tables \<Rightarrow> i64" where
  "next_serial s t = word_of_int (fold max (map sint (serials s t)) 0 + 1)"

definition engine_exec :: "string \<Rightarrow> tables \<Rightarrow> pg_result \<times> tables" where
  "engine_exec q t =
     (case parse_stmt q of
        None \<Rightarrow> (PGresult PGRES_FATAL_ERROR [], t)
      | Some s \<Rightarrow>
          let n = next_serial s t in
          if sql_fresh s t n then (PGresult (sql_status s) (sql_rows s n t), sql_update s n t)
          else (PGresult PGRES_FATAL_ERROR [], t))"

definition mem_pg :: "tables pg_env" where
  "mem_pg =
     \<lparr>pq_connectdb = (\<lambda>s t. (Some 3, t)), pq_status_ok = (\<lambda>c t. True), pq_finish = (\<lambda>c t. t),
      pq_exec = (\<lambda>c q t. engine_exec q t), pq_clear = (\<lambda>r t. t), pg_time = (\<lambda>t. 1700000000),
      pool_others = (\<lambda>st. st), pool_wakes = (\<lambda>st. [])\<rparr>"

lemma engine_exec_text:
  "clean_stmt s \<Longrightarrow> engine_exec (stmt_text s) t =
     (if sql_fresh s t (next_serial s t)
      then (PGresult (sql_status s) (sql_rows s (next_serial s t) t), sql_update s (next_serial s t) t)
      else (PGresult PGRES_FATAL_ERROR [], t))"
  by (simp add: engine_exec_def parse_stmt_text Let_def)

lemma sql_status_not_fatal: "sql_status s \<noteq> PGRES_FATAL_ERROR"
  by (cases s) simp_all

lemma fresh_unless_allocates: "\<not> allocates s \<Longrightarrow> sql_fresh s t n"
  by (cases s) simp_all

lemma mem_pg_conforms: "pg_conforms mem_pg (\<lambda>t. t)"
proof -
  have "failed res \<and> d' = d \<or> exec_ok s res d d'"
    if "clean_stmt s" and "pq_exec mem_pg c (stmt_text s) d = (res, d')" for c s d res d'
    using that
    by (auto simp: mem_pg_def engine_exec_text failed_def PQresultStatus_def exec_ok_def split: if_splits)
  then show ?thesis by (auto simp: pg_conforms_def conn_frame_def mem_pg_def)
qed

lemma mem_pg_reliable: "pg_reliable mem_pg"
  using sql_status_not_fatal fresh_unless_allocates
  by (auto simp: pg_reliable_def mem_pg_def engine_exec_text failed_def PQresultStatus_def)

lemma mem_pg_quiet: "pg_quiet mem_pg"
  by (simp add: pg_quiet_def mem_pg_def)

text \<open>A pool of two idle connections to it.\<close>

definition mem_pool :: db_pool where
  "mem_pool = \<lparr>dp_conninfo = ''dbname=LetsChat'', dp_min_pool = 2, dp_max_pool = 20,
     dp_idle = [3, 4], dp_total_created = 2\<rparr>"

definition no_tables :: tables where
  "no_tables = \<lparr>tb_user = [], tb_msg = [], tb_request = [], tb_friend = [], tb_gmsg = []\<rparr>"

lemma mem_pool_ok: "db_ok mem_pg 20 (mem_pool, t) \<and> db_lent (mem_pool, t) = 0"
  by (simp add: db_ok_def mem_pg_quiet pool_ok_def mem_pool_def db_lent_def)

lemma c_str_stmt_text: "clean_stmt s \<Longrightarrow> c_str (stmt_text s) = stmt_text s"
proof (rule c_str_id)
  assume "clean_stmt s"
  then show "NUL \<notin> set (stmt_text s)" unfolding stmt_text_template
    by (cases s) (auto simp: quoted_def clean_def NUL_def to_string_no_NUL [unfolded NUL_def])
qed

section \<open>Properties\<close>

text \<open>
  C31: the texts the database client sends can be read back: as long as no string parameter
  contains an apostrophe or a zero byte, the text determines which statement it is and all its
  parameters, whatever the numbers are.
\<close>

theorem stmt_text_roundtrip:
  assumes "clean_stmt s"
  shows "parse_stmt (c_str (stmt_text s)) = Some s"
  by (simp add: c_str_stmt_text parse_stmt_text assms)

theorem stmt_text_roundtrip_witness:
  "parse_stmt (c_str (sql_SaveMessage ''1'' 7 (-9) ''hi'' 1700000000)) =
     Some (InsertMsg ''1'' 7 (-9) ''hi'' 1700000000)"
  using stmt_text_roundtrip [of "InsertMsg ''1'' 7 (-9) ''hi'' 1700000000"]
  by (simp add: clean_def quote_free_def NUL_def)

end
