(* ===== verification/Db_Spec.thy ===== *)
theory Db_Spec
  imports Sql_Engine
begin

text \<open>
  The functions of the database client refine operations on the tables: under the contract of
  \<open>Sql_Model\<close> each call either fails, answers what the code answers on failure and leaves the
  tables alone, or answers and changes what the abstract operation does. No call throws then.
  With a reliable server and a free place in the pool a reading call does not fail.
\<close>

section \<open>One statement\<close>

definition db_up :: "'d pg_env \<Rightarrow> nat \<Rightarrow> 'd db_st \<Rightarrow> bool" where
  "db_up env mx st \<longleftrightarrow> pg_reliable env \<and> db_ok env mx st \<and> db_lent st < mx"

lemma db_up_Acquire:
  assumes "db_up env mx st"
  shows "\<exists>c st1. DbPool_Acquire env st = (Some c, st1)"
proof -
  obtain p d where st: "st = (p, d)" by (cases st)
  have "length (dp_idle p) \<le> dp_total_created p" "dp_total_created p - length (dp_idle p) < dp_max_pool p"
    and "\<forall>s d. \<exists>c d'. pq_connectdb env s d = (Some c, d') \<and> pq_status_ok env c d'"
    using assms by (auto simp: db_up_def db_ok_def pool_ok_def db_lent_def pg_reliable_def st)
  then show ?thesis using DbPool_Acquire_Some [of p env d] by (auto simp: st)
qed

lemma db_up_query: "db_up env mx st \<Longrightarrow> db_query env dflt sql f st = (r, st') \<Longrightarrow> db_up env mx st'"
  using db_query_balanced [of env mx st dflt sql f] by (simp add: db_up_def)

lemma db_up_accept: "db_up env mx st \<Longrightarrow> AcceptFriendRequest env req st = (r, st') \<Longrightarrow> db_up env mx st'"
  using AcceptFriendRequest_balanced [of env mx st req] by (simp add: db_up_def)

lemma scope_up:
  assumes "db_up env mx st" and "conn_frame env I"
    and "with_guard (DbPool_Acquire env) (DbPool_Release env) dflt body st = (r, st')"
  shows "\<exists>c st1 st2. body c st1 = (r, st2) \<and> I (snd st1) = I (snd st) \<and> I (snd st') = I (snd st2)"
proof -
  obtain c st1 where g: "DbPool_Acquire env st = (Some c, st1)" using db_up_Acquire [OF assms(1)] by blast
  obtain r2 st2 where b: "body c st1 = (r2, st2)" by (metis surj_pair)
  then have "r = r2" "st' = DbPool_Release env c st2" using assms(3) g by (simp_all add: with_guard_def)
  with b DbPool_Acquire_frame [OF assms(2) g] DbPool_Release_frame [OF assms(2)] show ?thesis by metis
qed

lemma with_result_spec:
  assumes conf: "pg_conforms env data" and clean: "\<And>d. clean_stmt (s d)"
    and f: "\<And>res. failed res \<Longrightarrow> f res = Inr dflt"
    and q: "with_result env (\<lambda>d. stmt_text (s d)) f c st = (r, st')"
  shows "(r = Inr dflt \<and> data (snd st') = data (snd st) \<and>
      (pg_reliable env \<longrightarrow> allocates (s (snd st)))) \<or>
    (\<exists>res. r = f res \<and> exec_ok (s (snd st)) res (data (snd st)) (data (snd st')))"
proof -
  obtain p d where st: "st = (p, d)" by (cases st)
  obtain res d1 where x: "pq_exec env c (stmt_text (s d)) d = (res, d1)" by fastforce
  have r: "r = f res" and d': "data (snd st') = data d1"
    using q x by (auto simp: with_result_def st c_str_stmt_text [OF clean] pg_conformsD [OF conf] split: sum.splits)
  have rel: "allocates (s d)" if "failed res" "pg_reliable env"
    using that x clean [of d] unfolding pg_reliable_def by (metis fst_conv)
  from pg_conforms_exec [OF conf clean x] consider "failed res" "data d1 = data d"
    | "exec_ok (s d) res (data d) (data d1)" by blast
  then show ?thesis using r d' f rel by cases (auto simp: st)
qed

text \<open>
  What one call does: it fails without effect, which a running server with a free place rules
  out for statements that need no serial number, or its result is what \<open>f\<close> reads from the
  answer of the statement.
\<close>

lemma db_query_spec:
  assumes conf: "pg_conforms env data" and clean: "\<And>d. clean_stmt (s d)"
    and f: "\<And>res. failed res \<Longrightarrow> f res = Inr dflt"
    and q: "db_query env dflt (\<lambda>d. stmt_text (s d)) f st = (r, st')"
  shows "(r = Inr dflt \<and> data (snd st') = data (snd st) \<and>
      (\<forall>mx. db_up env mx st \<longrightarrow> (\<exists>d. allocates (s d)))) \<or>
    (\<exists>d res. r = f res \<and> exec_ok (s d) res (data (snd st)) (data (snd st')))"
proof (cases "\<exists>mx. db_up env mx st")
  case True
  then obtain mx where up: "db_up env mx st" by blast
  from scope_up [OF up pg_conformsD(1) [OF conf] q [unfolded db_query_def]] obtain c st1 st2
    where "with_result env (\<lambda>d. stmt_text (s d)) f c st1 = (r, st2)"
      "data (snd st1) = data (snd st)" "data (snd st') = data (snd st2)" by blast
  with with_result_spec [OF conf clean f this(1)] up show ?thesis by (auto simp: db_up_def)
next
  case False
  from scope_frame [OF pg_conformsD(1) [OF conf] q [unfolded db_query_def]]
  consider "r = Inr dflt" "data (snd st') = data (snd st)"
    | c st1 st2 where "with_result env (\<lambda>d. stmt_text (s d)) f c st1 = (r, st2)"
      "data (snd st1) = data (snd st)" "data (snd st') = data (snd st2)" by blast
  then show ?thesis
  proof cases
    case 1
    with False show ?thesis by blast
  next
    case 2
    with with_result_spec [OF conf clean f 2(1)] False show ?thesis by auto
  qed
qed

section \<open>Reading rows\<close>

lemma PQ_rows [simp]:
  "PQresultStatus (PGresult x rows) = x" "PQntuples (PGresult x rows) = length rows"
  by (simp_all add: PQresultStatus_def PQntuples_def)

lemma get_text_row [simp]:
  "i < length rows \<Longrightarrow> j < length (rows ! i) \<Longrightarrow> get_text (PGresult x rows) i j = Inr (rows ! i ! j)"
  by (simp add: get_text_def PQgetvalue_def)

lemma get_int64_row [simp]:
  "i < length rows \<Longrightarrow> j < length (rows ! i) \<Longrightarrow> get_int64 (PGresult x rows) i j = stoll (rows ! i ! j)"
  by (simp add: get_int64_def)

lemma get_int32_row [simp]:
  "i < length rows \<Longrightarrow> j < length (rows ! i) \<Longrightarrow> get_int32 (PGresult x rows) i j = stoi (rows ! i ! j)"
  by (simp add: get_int32_def)

lemma failed_status [simp]: "failed res \<Longrightarrow> PQresultStatus res = PGRES_FATAL_ERROR"
  by (simp add: failed_def)

lemma emap_rows:
  assumes "\<And>i. i < length xs \<Longrightarrow> f (PGresult x (map g xs)) i = Inr (h (xs ! i))"
  shows "emap (f (PGresult x (map g xs))) [0..<length xs] = Inr (map h xs)"
proof -
  have "emap (f (PGresult x (map g xs))) [0..<length xs] = Inr (map (\<lambda>i. h (xs ! i)) [0..<length xs])"
    by (rule emap_all_Inr) (use assms in simp)
  also have "map (\<lambda>i. h (xs ! i)) [0..<length xs] = map h xs"
    by (rule nth_equalityI) simp_all
  finally show ?thesis .
qed

lemma mset_map_obtain:
  assumes "mset rows = mset (map g xs)"
  obtains ys where "rows = map g ys" and "mset ys = mset xs"
  using assms
proof (induction rows arbitrary: xs thesis)
  case Nil
  then show ?case by auto
next
  case (Cons r rows)
  then have "r \<in> set (map g xs)" by (metis list.set_intros(1) set_mset_mset)
  then obtain x where x: "x \<in> set xs" "r = g x" by auto
  then have split: "mset xs = add_mset x (mset (remove1 x xs))" by simp
  have "mset (map g xs) = add_mset (g x) (mset (map g (remove1 x xs)))"
    by (simp only: mset_map split image_mset_add_mset)
  with Cons.prems(2) x(2) have "mset rows = mset (map g (remove1 x xs))"
    by (simp only: mset.simps add_mset_add_mset_same_iff)
  then obtain ys where "rows = map g ys" "mset ys = mset (remove1 x xs)" using Cons.IH by metis
  with x split show ?case by (intro Cons.prems(1) [of "x # ys"]) simp_all
qed

section \<open>The reading calls\<close>

text \<open>
  \<open>spec_read\<close> collects what a reading call promises: no exception, unchanged tables, and an
  answer that satisfies \<open>Q\<close>, or the failure value when the server or the pool failed.
\<close>

definition spec_read ::
  "'d pg_env \<Rightarrow> ('d \<Rightarrow> tables) \<Rightarrow> 'd db_st \<Rightarrow> 'a throws \<times> 'd db_st \<Rightarrow> 'a \<Rightarrow> ('a \<Rightarrow> tables \<Rightarrow> bool) \<Rightarrow> bool"
  where
  "spec_read env data st rs dflt Q \<longleftrightarrow>
     data (snd (snd rs)) = data (snd st) \<and>
     (fst rs = Inr dflt \<and> (\<nexists>mx. db_up env mx st) \<or> (\<exists>x. fst rs = Inr x \<and> Q x (data (snd st))))"

lemma db_query_read:
  assumes conf: "pg_conforms env data"
    and s: "clean_stmt s" "\<not> allocates s" "\<And>n t. sql_update s n t = t"
    and f: "\<And>res. failed res \<Longrightarrow> f res = Inr dflt"
    and read: "\<And>res t. exec_ok s res t t \<Longrightarrow> \<exists>x. f res = Inr x \<and> Q x t"
  shows "spec_read env data st (db_query env dflt (\<lambda>d. stmt_text s) f st) dflt Q"
proof -
  obtain r st' where q: "db_query env dflt (\<lambda>d. stmt_text s) f st = (r, st')" by (metis surj_pair)
  from db_query_spec [OF conf s(1) f q] s(2)
  consider "r = Inr dflt" "data (snd st') = data (snd st)" "\<nexists>mx. db_up env mx st"
    | res where "r = f res" "exec_ok s res (data (snd st)) (data (snd st'))"
    by blast
  then show ?thesis
  proof cases
    case 1
    then show ?thesis by (simp add: spec_read_def q)
  next
    case 2
    then have same: "data (snd st') = data (snd st)" using s(3) by (auto simp: exec_ok_def)
    with 2 read [of res "data (snd st)"] show ?thesis by (auto simp: spec_read_def q)
  qed
qed

definition chat_of_row :: "msg_row \<Rightarrow> ChatMsg" where
  "chat_of_row x = ChatMsg_default\<lparr>cm_from_uid := mr_from x, cm_to_uid := mr_to x,
     cm_content := mr_content x, cm_create_time := mr_time x\<rparr>"

definition chat_of_gmsg :: "gmsg_row \<Rightarrow> ChatMsg" where
  "chat_of_gmsg x = ChatMsg_default\<lparr>cm_from_uid := gm_from x, cm_to_uid := gm_group x,
     cm_content := gm_content x, cm_create_time := gm_time x\<rparr>"

definition friend_request_of_row :: "request_row \<Rightarrow> FriendRequest" where
  "friend_request_of_row x =
     \<lparr>fr_req_id = qr_id x, fr_from_uid = qr_from x, fr_to_uid = qr_to x, fr_reason = qr_reason x,
      fr_create_time = qr_time x, fr_status = qr_status x\<rparr>"

lemma GetofflineMsgs_read:
  assumes "pg_conforms env data"
  shows "spec_read env data st (GetofflineMsgs env uid since st) []
    (\<lambda>msgs t. msgs = map chat_of_row (offline_msgs uid since t))"
  unfolding GetofflineMsgs_def stmt_text.simps(3) [symmetric]
proof (rule db_query_read [OF assms])
  fix res t assume "exec_ok (SelectOffline uid since) res t t"
  then show "\<exists>x. (if PQresultStatus res = PGRES_TUPLES_OK then emap (offline_row res) [0..<PQntuples res]
      else Inr []) = Inr x \<and> x = map chat_of_row (offline_msgs uid since t)"
    by (auto simp: exec_ok_def offline_row_def chat_of_row_def intro!: emap_rows)
qed simp_all

lemma GetGroupMsgs_read:
  assumes "pg_conforms env data"
  shows "spec_read env data st (GetGroupMsgs env g since st) []
    (\<lambda>msgs t. msgs = map chat_of_gmsg (group_msgs g since t))"
  unfolding GetGroupMsgs_def stmt_text.simps(15) [symmetric]
proof (rule db_query_read [OF assms])
  fix res t assume "exec_ok (SelectGmsgs g since) res t t"
  then show "\<exists>x. (if PQresultStatus res = PGRES_TUPLES_OK then emap (group_row res) [0..<PQntuples res]
      else Inr []) = Inr x \<and> x = map chat_of_gmsg (group_msgs g since t)"
    by (auto simp: exec_ok_def group_row_def chat_of_gmsg_def intro!: emap_rows)
qed simp_all

lemma GetFriendRequestsForUser_read:
  assumes "pg_conforms env data"
  shows "spec_read env data st (GetFriendRequestsForUser env uid st) []
    (\<lambda>reqs t. reqs = map friend_request_of_row (pending_requests uid t))"
  unfolding GetFriendRequestsForUser_def stmt_text.simps(7) [symmetric]
proof (rule db_query_read [OF assms])
  fix res t assume "exec_ok (SelectPending uid) res t t"
  then show "\<exists>x. (if PQresultStatus res = PGRES_TUPLES_OK then emap (friend_request_row res) [0..<PQntuples res]
      else Inr []) = Inr x \<and> x = map friend_request_of_row (pending_requests uid t)"
    by (auto simp: exec_ok_def friend_request_row_def friend_request_of_row_def intro!: emap_rows)
qed simp_all

lemma ListFriends_read:
  assumes "pg_conforms env data"
  shows "spec_read env data st (ListFriends env uid st) []
    (\<lambda>uids t. mset uids = mset (map fd_friend (filter (\<lambda>x. fd_uid x = uid) (tb_friend t))))"
  unfolding ListFriends_def stmt_text.simps(13) [symmetric]
proof (rule db_query_read [OF assms])
  fix res t assume "exec_ok (SelectFriends uid) res t t"
  then obtain rows where res: "res = PGresult PGRES_TUPLES_OK rows"
    and rows: "mset rows = mset (map (\<lambda>x. [to_string (fd_friend x)]) (filter (\<lambda>x. fd_uid x = uid) (tb_friend t)))"
    by (auto simp: exec_ok_def)
  obtain ys where ys: "rows = map (\<lambda>x. [to_string (fd_friend x)]) ys"
    "mset ys = mset (filter (\<lambda>x. fd_uid x = uid) (tb_friend t))"
    using mset_map_obtain [OF rows] by blast
  have "emap (\<lambda>i. get_int64 res i 0) [0..<length ys] = Inr (map fd_friend ys)"
    unfolding res ys(1) by (rule emap_rows) simp
  moreover have "mset (map fd_friend ys) = mset (map fd_friend (filter (\<lambda>x. fd_uid x = uid) (tb_friend t)))"
    using ys(2) by (simp only: mset_map)
  ultimately show "\<exists>x. (if PQresultStatus res = PGRES_TUPLES_OK
      then emap (\<lambda>i. get_int64 res i 0) [0..<PQntuples res] else Inr []) = Inr x \<and>
      mset x = mset (map fd_friend (filter (\<lambda>x. fd_uid x = uid) (tb_friend t)))"
    by (simp add: res ys(1))
qed simp_all

lemma AreFriends_read:
  assumes "pg_conforms env data"
  shows "spec_read env data st (AreFriends env u v st) False (\<lambda>b t. b \<longleftrightarrow> friend_of t u v)"
  unfolding AreFriends_def stmt_text.simps(12) [symmetric]
proof (rule db_query_read [OF assms])
  fix res t assume "exec_ok (SelectFriend u v) res t t"
  then show "\<exists>x. Inr (PQresultStatus res = PGRES_TUPLES_OK \<and> 0 < PQntuples res) = Inr x \<and>
      x = friend_of t u v"
    by (auto simp: exec_ok_def split: if_splits)
qed simp_all

text \<open>The password of a user is the text of one of its rows, or empty.\<close>

lemma GetUserPassword_read:
  assumes "pg_conforms env data"
  shows "spec_read env data st (GetUserPassword env uid st) []
    (\<lambda>pw t. if \<exists>x \<in> set (tb_user t). us_id x = uid
            then \<exists>x \<in> set (tb_user t). us_id x = uid \<and> pw = us_password x else pw = [])"
  unfolding GetUserPassword_def stmt_text.simps(1) [symmetric]
proof (rule db_query_read [OF assms])
  fix res t assume "exec_ok (SelectPassword uid) res t t"
  then obtain rows where res: "res = PGresult PGRES_TUPLES_OK rows"
    and rows: "mset rows = mset (map (\<lambda>x. [us_password x]) (filter (\<lambda>x. us_id x = uid) (tb_user t)))"
    by (auto simp: exec_ok_def)
  have set_rows: "set rows = (\<lambda>x. [us_password x]) ` {x \<in> set (tb_user t). us_id x = uid}"
    using mset_eq_setD [OF rows] by auto
  show "\<exists>x. (if PQresultStatus res \<noteq> PGRES_TUPLES_OK then Inr []
      else if 0 < PQntuples res then get_text res 0 0 else Inr []) = Inr x \<and>
      (if \<exists>y \<in> set (tb_user t). us_id y = uid
       then \<exists>y \<in> set (tb_user t). us_id y = uid \<and> x = us_password y else x = [])"
  proof (cases rows)
    case Nil
    then show ?thesis using set_rows res by auto
  next
    case (Cons row rest)
    then obtain y where "y \<in> set (tb_user t)" "us_id y = uid" "row = [us_password y]"
      using set_rows by auto
    then show ?thesis using Cons res by auto
  qed
qed simp_all

definition login_of_row :: "user_row \<Rightarrow> HttpLoginRes \<Rightarrow> HttpLoginRes" where
  "login_of_row x info = info\<lparr>hr_uid := us_id x, hr_nickname := us_username x, hr_token := us_password x\<rparr>"

text \<open>
  A user is accepted when the first row the server answers for the e-mail has the password;
  when the e-mail is unique, that is the user's row.
\<close>

lemma CheckUserByEmail_read:
  assumes "pg_conforms env data" and "clean email"
  shows "spec_read env data st (CheckUserByEmail env email pw info st) (False, info)
    (\<lambda>z t. case z of (b, info') \<Rightarrow> if \<exists>x \<in> set (tb_user t). us_email x = email
       then \<exists>x \<in> set (tb_user t). us_email x = email \<and> b = (us_password x = pw) \<and>
              info' = (if b then login_of_row x info else info)
       else \<not> b \<and> info' = info)"
  unfolding CheckUserByEmail_def stmt_text.simps(5) [symmetric]
proof (rule db_query_read [OF assms(1)])
  fix res t assume "exec_ok (SelectByEmail email) res t t"
  then obtain rows where res: "res = PGresult PGRES_TUPLES_OK rows"
    and rows: "mset rows = mset (map (\<lambda>x. [to_string (us_id x), us_username x, us_password x])
      (filter (\<lambda>x. us_email x = email) (tb_user t)))"
    by (auto simp: exec_ok_def)
  have set_rows: "set rows = (\<lambda>x. [to_string (us_id x), us_username x, us_password x]) `
      {x \<in> set (tb_user t). us_email x = email}"
    using mset_eq_setD [OF rows] by auto
  show "\<exists>z. (if PQresultStatus res \<noteq> PGRES_TUPLES_OK \<or> PQntuples res = 0 then Inr (False, info)
      else ebind (get_text res 0 2) (\<lambda>db_pass.
        if db_pass \<noteq> pw then Inr (False, info)
        else ebind (get_int64 res 0 0) (\<lambda>uid. ebind (get_text res 0 1) (\<lambda>nickname.
          Inr (True, info\<lparr>hr_uid := uid, hr_nickname := nickname, hr_token := db_pass\<rparr>))))) = Inr z \<and>
      (case z of (b, info') \<Rightarrow> if \<exists>x \<in> set (tb_user t). us_email x = email
         then \<exists>x \<in> set (tb_user t). us_email x = email \<and> b = (us_password x = pw) \<and>
              info' = (if b then login_of_row x info else info)
         else \<not> b \<and> info' = info)"
  proof (cases rows)
    case Nil
    then show ?thesis using set_rows res by auto
  next
    case (Cons row rest)
    then obtain y where y: "y \<in> set (tb_user t)" "us_email y = email"
      and row: "row = [to_string (us_id y), us_username y, us_password y]"
      using set_rows by auto
    then show ?thesis using Cons res
      by (cases "us_password y = pw") (auto simp: login_of_row_def)
  qed
qed (use assms(2) in simp_all)

section \<open>The writing calls\<close>

lemma SaveMessage_spec:
  assumes "pg_conforms env data" and "clean msg_id" and "clean content"
    and "SaveMessage env msg_id from_uid to_uid content st = (r, st')"
  shows "\<exists>b. r = Inr b \<and>
    (if b then \<exists>n now. sql_fresh (InsertMsg msg_id from_uid to_uid content now) (data (snd st)) n \<and>
            data (snd st') = sql_update (InsertMsg msg_id from_uid to_uid content now) n (data (snd st))
     else data (snd st') = data (snd st))"
proof -
  have "clean_stmt (InsertMsg msg_id from_uid to_uid content now)" for now
    using assms(2,3) by simp
  from db_query_spec [OF assms(1) this _ assms(4) [unfolded SaveMessage_def stmt_text.simps(2) [symmetric]]]
  show ?thesis by (fastforce simp: command_ok_def exec_ok_def)
qed

lemma SaveGroupMessage_spec:
  assumes "pg_conforms env data" and "clean msg_id" and "clean content"
    and "SaveGroupMessage env msg_id group_id from_uid content st = (r, st')"
  shows "\<exists>b. r = Inr b \<and>
    (if b then \<exists>n now. sql_fresh (InsertGmsg msg_id group_id from_uid content now) (data (snd st)) n \<and>
            data (snd st') = sql_update (InsertGmsg msg_id group_id from_uid content now) n (data (snd st))
     else data (snd st') = data (snd st))"
proof -
  have "clean_stmt (InsertGmsg msg_id group_id from_uid content now)" for now
    using assms(2,3) by simp
  from db_query_spec [OF assms(1) this _ assms(4) [unfolded SaveGroupMessage_def stmt_text.simps(14) [symmetric]]]
  show ?thesis by (fastforce simp: command_ok_def exec_ok_def)
qed

lemma mset_single_row: "mset rows = mset [x] \<Longrightarrow> rows = [x]"
  by simp

lemma CreateUser_spec:
  assumes "pg_conforms env data" and "clean username" and "clean password" and "clean email"
    and "CreateUser env username password email st = (r, st')"
  shows "r = Inr (-1) \<and> data (snd st') = data (snd st) \<or>
    (\<exists>n. r = Inr n \<and> sql_fresh (InsertUser username password email) (data (snd st)) n \<and>
       data (snd st') = sql_update (InsertUser username password email) n (data (snd st)))"
proof -
  have "clean_stmt (InsertUser username password email)" using assms(2-4) by simp
  from db_query_spec [OF assms(1) this _ assms(5) [unfolded CreateUser_def stmt_text.simps(4) [symmetric]]]
  consider "r = Inr (-1)" "data (snd st') = data (snd st)"
    | res where "r = (if PQresultStatus res \<noteq> PGRES_TUPLES_OK then Inr (-1) else get_int64 res 0 0)"
      "exec_ok (InsertUser username password email) res (data (snd st)) (data (snd st'))"
    by auto
  then show ?thesis
  proof cases
    case 2
    then show ?thesis by (auto simp: exec_ok_def)
  qed simp
qed

lemma CreateFriendRequest_spec:
  assumes "pg_conforms env data" and "clean reason"
    and "CreateFriendRequest env from_uid to_uid reason out st = (r, st')"
  shows "r = Inr (False, out) \<and> data (snd st') = data (snd st) \<or>
    (\<exists>n now. r = Inr (True, n) \<and>
       sql_fresh (InsertRequest from_uid to_uid reason now) (data (snd st)) n \<and>
       data (snd st') = sql_update (InsertRequest from_uid to_uid reason now) n (data (snd st)))"
proof -
  have "clean_stmt (InsertRequest from_uid to_uid reason now)" for now using assms(2) by simp
  from db_query_spec [OF assms(1) this _ assms(3) [unfolded CreateFriendRequest_def stmt_text.simps(6) [symmetric]]]
  consider "r = Inr (False, out)" "data (snd st') = data (snd st)"
    | d res where "r = (if PQresultStatus res \<noteq> PGRES_TUPLES_OK then Inr (False, out)
          else ebind (get_int64 res 0 0) (\<lambda>req_id. Inr (True, req_id)))"
      "exec_ok (InsertRequest from_uid to_uid reason (pg_time env d)) res (data (snd st)) (data (snd st'))"
    by auto
  then show ?thesis
  proof cases
    case 2
    then show ?thesis by (auto simp: exec_ok_def)
  qed simp
qed

lemma Execute_reject_spec:
  assumes "pg_conforms env data" and "Execute env (sql_RejectRequest req) st = (r, st')"
  shows "\<exists>b. r = Inr b \<and> data (snd st') = (if b then sql_update (SetRejected req) 0 (data (snd st)) else data (snd st)) \<and>
    ((\<exists>mx. db_up env mx st) \<longrightarrow> b)"
proof -
  have "clean_stmt (SetRejected req)" by simp
  from db_query_spec [OF assms(1) this _ assms(2) [unfolded Execute_def stmt_text.simps(11) [symmetric]]]
  show ?thesis by (auto simp: command_ok_def exec_ok_def)
qed

section \<open>Accepting a friend request\<close>

definition make_friends :: "i64 \<Rightarrow> i64 \<Rightarrow> i64 \<Rightarrow> tables \<Rightarrow> tables" where
  "make_friends u v now t = add_friend v u now (add_friend u v now t)"

lemma exec_insert_friend:
  "exec_ok (InsertFriend u v now) res t t' \<Longrightarrow>
     PQresultStatus res = PGRES_COMMAND_OK \<and> t' = add_friend u v now t"
  by (auto simp: exec_ok_def)

text \<open>Both inserts, or a failure that may leave the first one behind.\<close>

lemma accept_insert_spec:
  assumes conf: "pg_conforms env data" and q: "accept_insert env u v c st = (b, st')"
  shows "(b \<longrightarrow> (\<exists>now. data (snd st') = make_friends u v now (data (snd st)))) \<and>
    (pg_reliable env \<longrightarrow> b)"
proof -
  obtain p d where st: "st = (p, d)" by (cases st)
  let ?now = "pg_time env d"
  have clean: "clean_stmt (InsertFriend u v ?now)" "clean_stmt (InsertFriend v u ?now)" by simp_all
  obtain r1 d1 where x1: "pq_exec env c (stmt_text (InsertFriend u v ?now)) d = (r1, d1)" by fastforce
  obtain r2 d2 where x2: "pq_exec env c (stmt_text (InsertFriend v u ?now)) d1 = (r2, d2)" by fastforce
  have b: "b = (PQresultStatus r1 = PGRES_COMMAND_OK \<and> PQresultStatus r2 = PGRES_COMMAND_OK)"
    and d': "data (snd st') = data d2"
    using q x1 x2 c_str_stmt_text [OF clean(1)] c_str_stmt_text [OF clean(2)]
    by (auto simp: accept_insert_def st Let_def pg_conformsD [OF conf])
  have rel: "\<not> failed r1 \<and> \<not> failed r2" if "pg_reliable env"
    using that x1 x2 clean unfolding pg_reliable_def by (metis allocates.simps(10) fst_conv)
  from pg_conforms_exec [OF conf clean(1) x1] pg_conforms_exec [OF conf clean(2) x2]
  show ?thesis using b d' rel
    by (auto simp: st make_friends_def dest!: exec_insert_friend)
qed

lemma accept_find_row:
  assumes "exec_ok (SelectRequest req) res t t'"
  shows "t' = t \<and> (accept_find res = Inr None \<and> open_request req t = [] \<or>
    (\<exists>x \<in> set (open_request req t). accept_find res = Inr (Some (qr_from x, qr_to x))))"
proof -
  obtain rows where res: "res = PGresult PGRES_TUPLES_OK rows" and t': "t' = t"
    and rows: "mset rows = mset (map (\<lambda>x. [to_string (qr_from x), to_string (qr_to x)]) (open_request req t))"
    using assms by (auto simp: exec_ok_def)
  have set_rows: "set rows = (\<lambda>x. [to_string (qr_from x), to_string (qr_to x)]) ` set (open_request req t)"
    using mset_eq_setD [OF rows] by simp
  show ?thesis
  proof (cases rows)
    case Nil
    then show ?thesis using set_rows res t' by (simp add: accept_find_def)
  next
    case (Cons row rest)
    then obtain x where "x \<in> set (open_request req t)" "row = [to_string (qr_from x), to_string (qr_to x)]"
      using set_rows by auto
    then show ?thesis using Cons res t' by (auto simp: accept_find_def)
  qed
qed

text \<open>What accepting a request does to the tables.\<close>

definition accepted :: "i64 \<Rightarrow> bool \<Rightarrow> tables \<Rightarrow> tables \<Rightarrow> bool" where
  "accepted req marked t t' \<longleftrightarrow>
     (\<exists>x \<in> set (open_request req t). \<exists>now.
        t' = (if marked then set_status req 1 (make_friends (qr_from x) (qr_to x) now t)
              else make_friends (qr_from x) (qr_to x) now t))"

lemma accept_body_spec:
  assumes conf: "pg_conforms env data" and q: "accept_body env req c st = (r, st')"
  shows "\<exists>b. r = Inr b \<and> (b \<longrightarrow> (\<exists>marked. accepted req marked (data (snd st)) (data (snd st')) \<and>
      (pg_reliable env \<longrightarrow> marked))) \<and>
    (pg_reliable env \<longrightarrow> (b \<longleftrightarrow> open_request req (data (snd st)) \<noteq> []) \<and>
      (\<not> b \<longrightarrow> data (snd st') = data (snd st)))"
proof -
  have clean: "clean_stmt (SelectRequest req)" "clean_stmt (SetAccepted req)" by simp_all
  have find_failed: "accept_find res = Inr None" if "failed res" for res
    using that by (simp add: accept_find_def)
  obtain r1 st1 where a: "with_result env (\<lambda>d. sql_SelectRequest req) accept_find c st = (r1, st1)"
    by (metis surj_pair)
  note A = with_result_spec [OF conf clean(1) find_failed a [unfolded stmt_text.simps(8) [symmetric]]]
  from A consider "r1 = Inr None" "data (snd st1) = data (snd st)" "\<not> pg_reliable env"
    | "r1 = Inr None" "data (snd st1) = data (snd st)" "open_request req (data (snd st)) = []"
    | x where "x \<in> set (open_request req (data (snd st)))" "r1 = Inr (Some (qr_from x, qr_to x))"
        "data (snd st1) = data (snd st)"
    by (auto dest!: accept_find_row)
  then show ?thesis
  proof cases
    case 1
    with a q show ?thesis by (auto simp: accept_body_def)
  next
    case 2
    with a q show ?thesis by (auto simp: accept_body_def)
  next
    case (3 x)
    obtain ok st2 where b: "accept_insert env (qr_from x) (qr_to x) c st1 = (ok, st2)" by (metis surj_pair)
    note B = accept_insert_spec [OF conf b]
    obtain r3 st3 where u: "with_result env (\<lambda>d. sql_AcceptRequest req) (\<lambda>res. Inr True) c st2 = (r3, st3)"
      by (metis surj_pair)
    from with_result_spec [OF conf clean(2) _ u [unfolded stmt_text.simps(10) [symmetric]], of True]
    have U: "r3 = Inr True \<and> (data (snd st3) = data (snd st2) \<and> \<not> pg_reliable env \<or>
        data (snd st3) = set_status req 1 (data (snd st2)))"
      by (auto simp: exec_ok_def)
    have nonempty: "open_request req (data (snd st)) \<noteq> []" using 3(1) by auto
    show ?thesis
    proof (cases ok)
      case False
      then show ?thesis using a b q 3 B by (auto simp: accept_body_def)
    next
      case True
      then have r: "r = Inr True" "st' = st3" using a b u q 3 U by (auto simp: accept_body_def)
      obtain now where "data (snd st2) = make_friends (qr_from x) (qr_to x) now (data (snd st))"
        using B True 3 by auto
      then have "accepted req (data (snd st3) \<noteq> data (snd st2) \<or> pg_reliable env) (data (snd st)) (data (snd st3))"
        using U 3(1) unfolding accepted_def by (intro bexI [of _ x] exI [of _ now]) auto
      then show ?thesis using r nonempty by auto
    qed
  qed
qed

lemma AcceptFriendRequest_spec:
  assumes conf: "pg_conforms env data" and q: "AcceptFriendRequest env req st = (r, st')"
  shows "\<exists>b. r = Inr b \<and> (b \<longrightarrow> (\<exists>marked. accepted req marked (data (snd st)) (data (snd st')) \<and>
      ((\<exists>mx. db_up env mx st) \<longrightarrow> marked))) \<and>
    ((\<exists>mx. db_up env mx st) \<longrightarrow> (b \<longleftrightarrow> open_request req (data (snd st)) \<noteq> []) \<and>
      (\<not> b \<longrightarrow> data (snd st') = data (snd st)))"
proof (cases "\<exists>mx. db_up env mx st")
  case True
  then obtain mx where up: "db_up env mx st" by blast
  then have rel: "pg_reliable env" by (simp add: db_up_def)
  from scope_up [OF up pg_conformsD(1) [OF conf] q [unfolded AcceptFriendRequest_def]] obtain c st1 st2
    where b: "accept_body env req c st1 = (r, st2)"
      and d: "data (snd st1) = data (snd st)" "data (snd st') = data (snd st2)" by blast
  from accept_body_spec [OF conf b] d rel True show ?thesis by metis
next
  case False
  from scope_frame [OF pg_conformsD(1) [OF conf] q [unfolded AcceptFriendRequest_def]]
  consider "r = Inr False"
    | c st1 st2 where "accept_body env req c st1 = (r, st2)"
      "data (snd st1) = data (snd st)" "data (snd st') = data (snd st2)" by blast
  then show ?thesis
  proof cases
    case 1
    with False show ?thesis by (intro exI [of _ False]) simp
  next
    case 2
    with accept_body_spec [OF conf 2(1)] False show ?thesis by auto
  qed
qed

lemma accepted_friends:
  assumes "accepted req marked t t'"
  shows "\<exists>x \<in> set (open_request req t).
     friend_of t' (qr_from x) (qr_to x) \<and> friend_of t' (qr_to x) (qr_from x) \<and>
     (\<forall>u v. friend_of t u v \<longrightarrow> friend_of t' u v)"
proof -
  obtain x now where x: "x \<in> set (open_request req t)" and
    t': "friend_of t' = friend_of (make_friends (qr_from x) (qr_to x) now t)"
    using assms unfolding accepted_def by (cases marked) auto
  then show ?thesis by (intro bexI [of _ x]) (auto simp: make_friends_def)
qed

section \<open>Using the specifications\<close>

lemma spec_read_Inr: "spec_read env data st rs dflt Q \<Longrightarrow> \<exists>x. fst rs = Inr x"
  by (auto simp: spec_read_def)

lemma spec_read_up:
  "spec_read env data st rs dflt Q \<Longrightarrow> db_up env mx st \<Longrightarrow> \<exists>x. fst rs = Inr x \<and> Q x (data (snd st))"
  by (auto simp: spec_read_def)

lemma spec_read_data: "spec_read env data st rs dflt Q \<Longrightarrow> data (snd (snd rs)) = data (snd st)"
  by (simp add: spec_read_def)

text \<open>Calls whose string parameters contain no apostrophe and no zero byte.\<close>

fun clean_call :: "db_call \<Rightarrow> bool" where
  "clean_call (Call_Execute sql) \<longleftrightarrow> (\<exists>req. sql = sql_RejectRequest req)"
| "clean_call (Call_SaveMessage m f t c) \<longleftrightarrow> clean m \<and> clean c"
| "clean_call (Call_CreateUser u p e) \<longleftrightarrow> clean u \<and> clean p \<and> clean e"
| "clean_call (Call_CheckUserByEmail e p info) \<longleftrightarrow> clean e"
| "clean_call (Call_CreateFriendRequest f t r req) \<longleftrightarrow> clean r"
| "clean_call (Call_SaveGroupMessage m g f c) \<longleftrightarrow> clean m \<and> clean c"
| "clean_call _ \<longleftrightarrow> True"

lemma read_escaped: "spec_read env data st rs dflt Q \<Longrightarrow> fst (escaped rs) = None"
  by (auto simp: spec_read_def escaped_def)

lemma Inr_of_spec:
  assumes "\<And>r st'. q = (r, st') \<Longrightarrow> \<exists>x. r = Inr x"
  shows "fst (escaped q) = None"
  using assms [of "fst q" "snd q"] by (auto simp: escaped_def)

section \<open>Properties\<close>

text \<open>
  C30: against a server that answers every statement by failing or by doing what the statement
  means, no call with clean parameters throws: every column the code converts is a number of
  the right width, and every row it indexes is there.
\<close>

theorem db_call_never_throws:
  assumes conf: "pg_conforms env data" and "clean_call call" and "run_call env call st = (e, st')"
  shows "e = None"
proof -
  note reads = read_escaped [OF GetUserPassword_read [OF conf]] read_escaped [OF GetofflineMsgs_read [OF conf]]
    read_escaped [OF GetFriendRequestsForUser_read [OF conf]] read_escaped [OF AreFriends_read [OF conf]]
    read_escaped [OF ListFriends_read [OF conf]] read_escaped [OF GetGroupMsgs_read [OF conf]]
  have "fst (run_call env call st) = None"
  proof (cases call)
    case (Call_Execute sql)
    with assms(2) show ?thesis by (auto intro!: Inr_of_spec dest!: Execute_reject_spec [OF conf])
  next
    case (Call_SaveMessage m f t c)
    with assms(2) show ?thesis by (auto intro!: Inr_of_spec dest!: SaveMessage_spec [OF conf, rotated 2])
  next
    case (Call_CreateUser u p em)
    with assms(2) show ?thesis by (auto intro!: Inr_of_spec dest!: CreateUser_spec [OF conf, rotated 3])
  next
    case (Call_CheckUserByEmail em p info)
    with assms(2) show ?thesis by (simp add: read_escaped [OF CheckUserByEmail_read [OF conf]])
  next
    case (Call_CreateFriendRequest f t r req)
    with assms(2) show ?thesis
      by (auto intro!: Inr_of_spec dest!: CreateFriendRequest_spec [OF conf, rotated])
  next
    case (Call_AcceptFriendRequest req)
    then show ?thesis by (auto intro!: Inr_of_spec dest!: AcceptFriendRequest_spec [OF conf])
  next
    case (Call_SaveGroupMessage m g f c)
    with assms(2) show ?thesis by (auto intro!: Inr_of_spec dest!: SaveGroupMessage_spec [OF conf, rotated 2])
  qed (simp_all add: reads)
  with assms(3) show ?thesis by simp
qed

text \<open>A server with two users and a request from the first to the second.\<close>

definition two_users :: tables where
  "two_users = no_tables\<lparr>
     tb_user := [\<lparr>us_id = 1, us_username = ''ann'', us_password = ''pw1'', us_email = ''a@x''\<rparr>,
                 \<lparr>us_id = 2, us_username = ''bob'', us_password = ''pw2'', us_email = ''b@x''\<rparr>],
     tb_request := [\<lparr>qr_id = 5, qr_from = 1, qr_to = 2, qr_reason = ''hi'', qr_time = 9, qr_status = 0\<rparr>]\<rparr>"

lemma mem_pg_up: "db_up mem_pg 20 (mem_pool, t)"
  using mem_pool_ok by (simp add: db_up_def mem_pg_reliable)

theorem db_call_never_throws_witness:
  "fst (run_call mem_pg (Call_AcceptFriendRequest 5) (mem_pool, two_users)) = None"
  by (rule db_call_never_throws [OF mem_pg_conforms _ surjective_pairing]) simp

text \<open>
  With a running server, \<open>AcceptFriendRequest\<close> succeeds exactly for a request that is
  still open, changes nothing otherwise, and afterwards \<open>AreFriends\<close> answers yes in both
  directions for the two users of the request, so that either may write to the other.
\<close>

theorem accept_then_AreFriends:
  assumes conf: "pg_conforms env data" and up: "db_up env mx st"
    and acc: "AcceptFriendRequest env req st = (r, st1)"
  shows "(r = Inr False \<and> open_request req (data (snd st)) = [] \<and> data (snd st1) = data (snd st)) \<or>
    (r = Inr True \<and> (\<exists>x \<in> set (open_request req (data (snd st))).
       fst (AreFriends env (qr_from x) (qr_to x) st1) = Inr True \<and>
       fst (AreFriends env (qr_to x) (qr_from x) st1) = Inr True))"
proof -
  have up1: "db_up env mx st1" by (rule db_up_accept [OF up acc])
  have ask: "fst (AreFriends env u v st1) = Inr (friend_of (data (snd st1)) u v)" for u v
    using spec_read_up [OF AreFriends_read [OF conf] up1] by auto
  from AcceptFriendRequest_spec [OF conf acc] up consider
    "r = Inr False" "open_request req (data (snd st)) = []" "data (snd st1) = data (snd st)"
    | marked where "r = Inr True" "accepted req marked (data (snd st)) (data (snd st1))"
    by auto
  then show ?thesis
  proof cases
    case 2
    with accepted_friends [OF 2(2)] ask show ?thesis by auto
  qed simp
qed

theorem accept_then_AreFriends_witness:
  "\<exists>st1. AcceptFriendRequest mem_pg 5 (mem_pool, two_users) = (Inr True, st1) \<and>
     fst (AreFriends mem_pg 1 2 st1) = Inr True \<and> fst (AreFriends mem_pg 2 1 st1) = Inr True"
proof -
  obtain r st1 where acc: "AcceptFriendRequest mem_pg 5 (mem_pool, two_users) = (r, st1)"
    by (metis surj_pair)
  have "open_request 5 two_users = tb_request two_users"
    by (simp add: open_request_def two_users_def no_tables_def)
  with accept_then_AreFriends [OF mem_pg_conforms mem_pg_up acc] acc show ?thesis
    by (auto simp: two_users_def no_tables_def)
qed

text \<open>
  C17: a synchronisation answers the stored messages to the user with a serial number above the
  one asked for, lowest first and at most 100 of them; it changes nothing. None of the
  messages it answers carries its serial number: \<open>msg_id\<close> is 0 in all of them, so a client
  with more than 100 waiting messages cannot tell where to continue.
\<close>

theorem sync_messages:
  assumes conf: "pg_conforms env data" and up: "db_up env mx st"
    and q: "GetofflineMsgs env uid since st = (r, st')"
  shows "\<exists>rows. r = Inr (map chat_of_row rows) \<and> length rows \<le> 100 \<and>
    sorted (map (\<lambda>x. sint (mr_id x)) rows) \<and>
    (\<forall>x \<in> set rows. x \<in> set (tb_msg (data (snd st))) \<and> mr_to x = uid \<and> since <s mr_id x \<and>
       cm_msg_id (chat_of_row x) = 0) \<and>
    (\<forall>x \<in> set (tb_msg (data (snd st))). mr_to x = uid \<and> since <s mr_id x \<and> x \<notin> set rows \<longrightarrow>
       length rows = 100 \<and> (\<forall>y \<in> set rows. sint (mr_id y) \<le> sint (mr_id x))) \<and>
    data (snd st') = data (snd st)"
proof -
  let ?t = "data (snd st)"
  let ?k = "\<lambda>x. sint (mr_id x)"
  let ?all = "sort_key ?k (filter (\<lambda>x. mr_to x = uid \<and> since <s mr_id x) (tb_msg ?t))"
  let ?rows = "take 100 ?all"
  have r: "r = Inr (map chat_of_row ?rows)" and d: "data (snd st') = ?t"
    using spec_read_up [OF GetofflineMsgs_read [OF conf] up, of uid since]
      spec_read_data [OF GetofflineMsgs_read [OF conf], of uid since st] q
    by (simp_all add: offline_msgs_def)
  have sorted_all: "sorted (map ?k ?all)" by simp
  have set_all: "set ?all = {x \<in> set (tb_msg ?t). mr_to x = uid \<and> since <s mr_id x}" by simp
  have set_rows: "set ?rows \<subseteq> set ?all" by (rule set_take_subset)
  note rest = take_sorted_rest [OF sorted_all, where n = 100]
  show ?thesis
  proof (intro exI [of _ ?rows] conjI)
    show "sorted (map ?k ?rows)" by (rule sorted_map_take [OF sorted_all])
    show "\<forall>x \<in> set ?rows. x \<in> set (tb_msg ?t) \<and> mr_to x = uid \<and> since <s mr_id x \<and>
        cm_msg_id (chat_of_row x) = 0"
      using set_rows set_all by (auto simp: chat_of_row_def ChatMsg_default_def)
    show "\<forall>x \<in> set (tb_msg ?t). mr_to x = uid \<and> since <s mr_id x \<and> x \<notin> set ?rows \<longrightarrow>
       length ?rows = 100 \<and> (\<forall>y \<in> set ?rows. ?k y \<le> ?k x)"
      using rest set_all by blast
  qed (use r d in simp_all)
qed

text \<open>A server with one waiting message for user 2.\<close>

definition one_message :: tables where
  "one_message = no_tables\<lparr>tb_msg :=
     [\<lparr>mr_id = 3, mr_msg_id = ''77'', mr_from = 1, mr_to = 2, mr_content = ''yo'', mr_time = 9\<rparr>]\<rparr>"

theorem sync_messages_witness:
  "\<exists>rows. fst (GetofflineMsgs mem_pg 2 0 (mem_pool, one_message)) = Inr (map chat_of_row rows) \<and>
     set rows = set (tb_msg one_message)"
proof -
  obtain r st' where q: "GetofflineMsgs mem_pg 2 0 (mem_pool, one_message) = (r, st')"
    by (metis surj_pair)
  from sync_messages [OF mem_pg_conforms mem_pg_up q] obtain rows where
    r: "r = Inr (map chat_of_row rows)" and sub: "set rows \<subseteq> set (tb_msg one_message)"
    and rest: "\<forall>x \<in> set (tb_msg one_message). mr_to x = 2 \<and> 0 <s mr_id x \<and> x \<notin> set rows \<longrightarrow>
       length rows = 100"
    by (auto simp: subset_iff)
  have "rows \<noteq> []" using rest by (auto simp: one_message_def no_tables_def word_sless_alt)
  with sub have "set rows = set (tb_msg one_message)"
    by (cases rows) (auto simp: one_message_def no_tables_def)
  with q r show ?thesis by auto
qed

text \<open>
  A message that \<open>SaveMessage\<close> reports as saved reaches its receiver: with a running
  server, a synchronisation from 0 by a user with fewer than 100 stored messages answers a
  message with this sender, receiver and content.
\<close>

theorem save_then_sync:
  assumes conf: "pg_conforms env data" and up: "db_up env mx st" and "clean msg_id" and "clean content"
    and save: "SaveMessage env msg_id from_uid to_uid content st = (Inr True, st1)"
    and few: "length (filter (\<lambda>x. mr_to x = to_uid) (tb_msg (data (snd st)))) < 100"
    and sync: "GetofflineMsgs env to_uid 0 st1 = (r, st2)"
  shows "\<exists>msgs. r = Inr msgs \<and> (\<exists>m \<in> set msgs. cm_from_uid m = from_uid \<and> cm_to_uid m = to_uid \<and>
    cm_content m = content)"
proof -
  let ?t = "data (snd st)"
  obtain n now where "sql_fresh (InsertMsg msg_id from_uid to_uid content now) ?t n"
    and t1: "data (snd st1) = sql_update (InsertMsg msg_id from_uid to_uid content now) n ?t"
    using SaveMessage_spec [OF conf assms(3,4) save] by auto
  then have pos: "0 <s n" by simp
  define x where "x = \<lparr>mr_id = n, mr_msg_id = msg_id, mr_from = from_uid, mr_to = to_uid,
    mr_content = content, mr_time = now\<rparr>"
  let ?mine = "filter (\<lambda>y. mr_to y = to_uid \<and> 0 <s mr_id y) (tb_msg (data (snd st1)))"
  have mine: "?mine = filter (\<lambda>y. mr_to y = to_uid \<and> 0 <s mr_id y) (tb_msg ?t) @ [x]"
    using t1 pos by (simp add: x_def)
  have "length (filter (\<lambda>y. mr_to y = to_uid \<and> 0 <s mr_id y) (tb_msg ?t)) \<le>
      length (filter (\<lambda>y. mr_to y = to_uid) (tb_msg ?t))"
    by (rule length_filter_mono) simp
  then have "length ?mine \<le> 100" using few mine by simp
  then have "x \<in> set (offline_msgs to_uid 0 (data (snd st1)))"
    using mine by (simp add: offline_msgs_def)
  moreover have "r = Inr (map chat_of_row (offline_msgs to_uid 0 (data (snd st1))))"
    using spec_read_up [OF GetofflineMsgs_read [OF conf] db_up_query [OF up save [unfolded SaveMessage_def]],
        of to_uid 0] sync by simp
  moreover have "cm_from_uid (chat_of_row x) = from_uid" "cm_to_uid (chat_of_row x) = to_uid"
    "cm_content (chat_of_row x) = content"
    by (simp_all add: chat_of_row_def x_def)
  ultimately show ?thesis by force
qed

lemma save_example:
  "\<exists>st1. SaveMessage mem_pg ''1'' 1 2 ''yo'' (mem_pool, no_tables) = (Inr True, st1)"
proof -
  obtain r st1 where q: "SaveMessage mem_pg ''1'' 1 2 ''yo'' (mem_pool, no_tables) = (r, st1)"
    by (metis surj_pair)
  have clean: "clean_stmt (InsertMsg ''1'' 1 2 ''yo'' 1700000000)"
    by (simp add: clean_def quote_free_def NUL_def)
  have acq: "DbPool_Acquire mem_pg (mem_pool, no_tables) = (Some 3, (mem_pool\<lparr>dp_idle := [4]\<rparr>, no_tables))"
    by (simp add: DbPool_Acquire_def DbPool_turn_def DbPool_IsHealthy_def mem_pool_def mem_pg_def)
  have "sql_fresh (InsertMsg ''1'' 1 2 ''yo'' 1700000000) no_tables
      (next_serial (InsertMsg ''1'' 1 2 ''yo'' 1700000000) no_tables)"
    by (simp add: next_serial_def no_tables_def word_sless_alt)
  then have "\<exists>t'. pq_exec mem_pg c (stmt_text (InsertMsg ''1'' 1 2 ''yo'' 1700000000)) no_tables =
      (PGresult PGRES_COMMAND_OK [], t')" for c
    using engine_exec_text [OF clean] by (simp add: mem_pg_def)
  moreover have "pg_time mem_pg no_tables = 1700000000" by (simp add: mem_pg_def)
  ultimately have "r = Inr True"
    using q c_str_stmt_text [OF clean]
    by (auto simp: SaveMessage_def db_query_def with_guard_def acq with_result_def command_ok_def
        split: prod.splits) (metis PQ_rows(1) Pair_inject)
  with q show ?thesis by auto
qed

theorem save_then_sync_witness:
  "\<exists>st1 msgs. SaveMessage mem_pg ''1'' 1 2 ''yo'' (mem_pool, no_tables) = (Inr True, st1) \<and>
     fst (GetofflineMsgs mem_pg 2 0 st1) = Inr msgs \<and> (\<exists>m \<in> set msgs. cm_content m = ''yo'')"
proof -
  obtain st1 where save: "SaveMessage mem_pg ''1'' 1 2 ''yo'' (mem_pool, no_tables) = (Inr True, st1)"
    using save_example by blast
  obtain r st2 where sync: "GetofflineMsgs mem_pg 2 0 st1 = (r, st2)" by (metis surj_pair)
  have "\<exists>msgs. r = Inr msgs \<and> (\<exists>m \<in> set msgs. cm_from_uid m = 1 \<and> cm_to_uid m = 2 \<and> cm_content m = ''yo'')"
    by (rule save_then_sync [OF mem_pg_conforms mem_pg_up _ _ save _ sync])
      (simp_all add: clean_def quote_free_def NUL_def no_tables_def)
  with save sync show ?thesis by auto
qed

lemma created_login:
  assumes conf: "pg_conforms env data" and up: "db_up env mx st"
    and "clean username" and "clean password" and "clean email"
    and new: "\<forall>x \<in> set (tb_user (data (snd st))). us_email x \<noteq> email"
    and create: "CreateUser env username password email st = (r, st1)"
  shows "(r = Inr (-1) \<and> data (snd st1) = data (snd st)) \<or>
    (\<exists>uid. r = Inr uid \<and> 0 <s uid \<and>
       fst (CheckUserByEmail env email pw info st1) =
         Inr (if pw = password
              then (True, info\<lparr>hr_uid := uid, hr_nickname := username, hr_token := password\<rparr>)
              else (False, info)))"
proof -
  let ?t = "data (snd st)"
  from CreateUser_spec [OF conf assms(3-5) create] consider "r = Inr (-1)" "data (snd st1) = ?t"
    | n where "r = Inr n" "0 <s n" "data (snd st1) = sql_update (InsertUser username password email) n ?t"
    by auto
  then show ?thesis
  proof cases
    case (2 n)
    let ?x = "\<lparr>us_id = n, us_username = username, us_password = password, us_email = email\<rparr>"
    have users: "tb_user (data (snd st1)) = tb_user ?t @ [?x]" using 2 by simp
    then have only: "x = ?x" if "x \<in> set (tb_user (data (snd st1)))" "us_email x = email" for x
      using that new by auto
    have mem: "\<exists>x \<in> set (tb_user (data (snd st1))). us_email x = email" using users by simp
    from spec_read_up [OF CheckUserByEmail_read [OF conf assms(5), where pw = pw and info = info]
        db_up_query [OF up create [unfolded CreateUser_def]]] mem
    obtain b info' x where c: "fst (CheckUserByEmail env email pw info st1) = Inr (b, info')"
      and x: "x \<in> set (tb_user (data (snd st1)))" "us_email x = email"
      and b: "b = (us_password x = pw)" "info' = (if b then login_of_row x info else info)"
      by auto
    show ?thesis
      using 2(1,2) c b only [OF x] by (auto simp: login_of_row_def)
  qed simp
qed

text \<open>
  A user who has just been created can log in: \<open>CreateUser\<close> answers either -1 and has
  changed nothing, or a new positive number, after which \<open>CheckUserByEmail\<close> accepts this
  e-mail with exactly this password and fills in the number and the name, provided the e-mail
  was not in use before.
\<close>

theorem create_then_login:
  assumes conf: "pg_conforms env data" and up: "db_up env mx st"
    and "clean username" and "clean password" and "clean email"
    and new: "\<forall>x \<in> set (tb_user (data (snd st))). us_email x \<noteq> email"
    and create: "CreateUser env username password email st = (r, st1)"
  shows "(r = Inr (-1) \<and> data (snd st1) = data (snd st)) \<or>
    (\<exists>uid. r = Inr uid \<and> 0 <s uid \<and>
       fst (CheckUserByEmail env email pw info st1) =
         Inr (if pw = password
              then (True, info\<lparr>hr_uid := uid, hr_nickname := username, hr_token := password\<rparr>)
              else (False, info)))"
  by (rule created_login [OF assms])

lemma create_example:
  "\<exists>st1. CreateUser mem_pg ''cat'' ''pw'' ''c@x'' (mem_pool, two_users) = (Inr 3, st1)"
proof -
  obtain r st1 where q: "CreateUser mem_pg ''cat'' ''pw'' ''c@x'' (mem_pool, two_users) = (r, st1)"
    by (metis surj_pair)
  let ?s = "InsertUser ''cat'' ''pw'' ''c@x''"
  have clean: "clean_stmt ?s" by (simp add: clean_def quote_free_def NUL_def)
  have acq: "DbPool_Acquire mem_pg (mem_pool, two_users) = (Some 3, (mem_pool\<lparr>dp_idle := [4]\<rparr>, two_users))"
    by (simp add: DbPool_Acquire_def DbPool_turn_def DbPool_IsHealthy_def mem_pool_def mem_pg_def)
  have "next_serial ?s two_users = 3" and "sql_fresh ?s two_users 3"
    by (simp_all add: next_serial_def two_users_def word_sless_alt)
  then have "\<exists>t'. pq_exec mem_pg c (stmt_text ?s) two_users =
      (PGresult PGRES_TUPLES_OK [[to_string (3 :: i64)]], t')" for c
    using engine_exec_text [OF clean] by (simp add: mem_pg_def)
  then obtain t' where x: "pq_exec mem_pg 3 (stmt_text ?s) two_users =
      (PGresult PGRES_TUPLES_OK [[to_string (3 :: i64)]], t')" by blast
  have "r = Inr 3"
    using q c_str_stmt_text [OF clean] x
    by (simp add: CreateUser_def db_query_def with_guard_def acq with_result_def)
  with q show ?thesis by auto
qed

theorem create_then_login_witness:
  "\<exists>st1. CreateUser mem_pg ''cat'' ''pw'' ''c@x'' (mem_pool, two_users) = (Inr 3, st1) \<and>
     fst (CheckUserByEmail mem_pg ''c@x'' ''pw'' HttpLoginRes_default st1) =
       Inr (True, HttpLoginRes_default\<lparr>hr_uid := 3, hr_nickname := ''cat'', hr_token := ''pw''\<rparr>)"
proof -
  obtain st1 where create: "CreateUser mem_pg ''cat'' ''pw'' ''c@x'' (mem_pool, two_users) = (Inr 3, st1)"
    using create_example by blast
  have "clean ''cat''" "clean ''pw''" "clean ''c@x''"
    and "\<forall>x \<in> set (tb_user two_users). us_email x \<noteq> ''c@x''"
    by (simp_all add: clean_def quote_free_def NUL_def two_users_def)
  with create_then_login [OF mem_pg_conforms mem_pg_up _ _ _ _ create,
      where pw = "''pw''" and info = HttpLoginRes_default] create
  show ?thesis by auto
qed

end
