(* ===== verification/Redis_Pool.thy ===== *)
theory Redis_Pool
  imports Conn_Pool Cpp_Text
begin

text \<open>
  \<open>server/logic_server/redis_pool.h\<close> and \<open>redis_pool.cc\<close>: the pool of Redis connections.
  hiredis and the rest of the outside world is the record \<open>redis_env\<close> over an opaque world.
  The class runs the algorithm of \<open>DbPool\<close> on \<open>redisContext\<close> handles; what differs is how
  a connection is opened (an \<open>AUTH\<close> command when a password is set) and how its health is
  read (\<open>ctx->err\<close>). Its critical sections satisfy the same laws, so the lemmas of
  \<open>Conn_Pool\<close> apply to it through two interpretations.
\<close>

section \<open>State\<close>

record redis_pool =
  rp_host :: string
  rp_port :: i32
  rp_password :: string
  rp_min_pool :: nat
  rp_max_pool :: nat
  rp_idle :: "conn list"
  rp_total_created :: nat

datatype redis_reply =
    REPLY_STRING string
  | REPLY_STATUS string
  | REPLY_ERROR string
  | REPLY_NIL
  | REPLY_INTEGER int

text \<open>
  hiredis: \<open>hr_connect\<close> is \<open>redisConnect\<close>, \<open>hr_err\<close> tells whether \<open>ctx->err\<close> is set,
  \<open>hr_command\<close> is \<open>redisCommand\<close> with the words of the command after its \<open>%s\<close> arguments
  are filled in.
\<close>

record 'r redis_env =
  hr_connect :: "string \<Rightarrow> i32 \<Rightarrow> 'r \<Rightarrow> conn option \<times> 'r"
  hr_err :: "conn \<Rightarrow> 'r \<Rightarrow> bool"
  hr_free :: "conn \<Rightarrow> 'r \<Rightarrow> 'r"
  hr_command :: "conn \<Rightarrow> string list \<Rightarrow> 'r \<Rightarrow> redis_reply option \<times> 'r"
  hr_free_reply :: "redis_reply \<Rightarrow> 'r \<Rightarrow> 'r"
  rpool_others :: "redis_pool \<times> 'r \<Rightarrow> redis_pool \<times> 'r"
  rpool_wakes :: "redis_pool \<times> 'r \<Rightarrow> (redis_pool \<times> 'r \<Rightarrow> redis_pool \<times> 'r) list"

section \<open>Operations\<close>

definition RedisPool_CreateConn :: "'r redis_env \<Rightarrow> redis_pool \<Rightarrow> 'r \<Rightarrow> conn option \<times> 'r" where
  "RedisPool_CreateConn env p r =
     (case hr_connect env (c_str (rp_host p)) (rp_port p) r of
        (None, r1) \<Rightarrow> (None, r1)
      | (Some c, r1) \<Rightarrow>
          if hr_err env c r1 then (None, hr_free env c r1)
          else if rp_password p \<noteq> [] then
            (case hr_command env c [''AUTH'', c_str (rp_password p)] r1 of
               (None, r2) \<Rightarrow> (None, hr_free env c r2)
             | (Some (REPLY_ERROR e), r2) \<Rightarrow>
                 (None, hr_free env c (hr_free_reply env (REPLY_ERROR e) r2))
             | (Some reply, r2) \<Rightarrow> (Some c, hr_free_reply env reply r2))
          else (Some c, r1))"

definition RedisPool_IsHealthy :: "'r redis_env \<Rightarrow> conn option \<Rightarrow> 'r \<Rightarrow> bool" where
  "RedisPool_IsHealthy env ctx r = (case ctx of None \<Rightarrow> False | Some c \<Rightarrow> \<not> hr_err env c r)"

fun RedisPool_fill :: "'r redis_env \<Rightarrow> nat \<Rightarrow> redis_pool \<Rightarrow> 'r \<Rightarrow> redis_pool \<times> 'r" where
  "RedisPool_fill env 0 p r = (p, r)"
| "RedisPool_fill env (Suc n) p r =
     (case RedisPool_CreateConn env p r of
        (Some c, r') \<Rightarrow> RedisPool_fill env n (p\<lparr>rp_idle := rp_idle p @ [c]\<rparr>) r'
      | (None, r') \<Rightarrow> RedisPool_fill env n p r')"

definition RedisPool_new ::
  "'r redis_env \<Rightarrow> string \<Rightarrow> i32 \<Rightarrow> string \<Rightarrow> nat \<Rightarrow> nat \<Rightarrow> 'r \<Rightarrow> redis_pool \<times> 'r" where
  "RedisPool_new env host port password min_pool max_pool r =
     (case RedisPool_fill env min_pool
        \<lparr>rp_host = host, rp_port = port, rp_password = password, rp_min_pool = min_pool,
         rp_max_pool = max_pool, rp_idle = [], rp_total_created = 0\<rparr> r of
        (p, r') \<Rightarrow> (p\<lparr>rp_total_created := length (rp_idle p)\<rparr>, r'))"

definition RedisPool_destroy :: "'r redis_env \<Rightarrow> redis_pool \<times> 'r \<Rightarrow> redis_pool \<times> 'r" where
  "RedisPool_destroy env st =
     (case st of (p, r) \<Rightarrow>
        (p\<lparr>rp_idle := [], rp_total_created := 0\<rparr>, fold (hr_free env) (rp_idle p) r))"

fun RedisPool_scan ::
  "'r redis_env \<Rightarrow> conn list \<Rightarrow> nat \<Rightarrow> 'r \<Rightarrow> conn option \<times> conn list \<times> nat \<times> 'r" where
  "RedisPool_scan env [] made r = (None, [], made, r)"
| "RedisPool_scan env (c # idle) made r =
     (if \<not> RedisPool_IsHealthy env (Some c) r
      then RedisPool_scan env idle (size_dec made) (hr_free env c r)
      else (Some c, idle, made, r))"

definition RedisPool_turn :: "'r redis_env \<Rightarrow> redis_pool \<Rightarrow> 'r \<Rightarrow> turn \<times> redis_pool \<times> 'r" where
  "RedisPool_turn env p r =
     (case RedisPool_scan env (rp_idle p) (rp_total_created p) r of
        (found, idle, made, r') \<Rightarrow>
          let p' = p\<lparr>rp_idle := idle, rp_total_created := made\<rparr>
          in case found of
               Some c \<Rightarrow> (Take c, p', r')
             | None \<Rightarrow> (if made < rp_max_pool p then Try_create else Block, p', r'))"

definition RedisPool_connected :: "conn option \<Rightarrow> redis_pool \<Rightarrow> turn \<times> redis_pool" where
  "RedisPool_connected c p =
     (case c of
        Some c \<Rightarrow> (Take c, p\<lparr>rp_total_created := size_inc (rp_total_created p)\<rparr>)
      | None \<Rightarrow> (Block, p))"

definition RedisPool_Release :: "'r redis_env \<Rightarrow> conn \<Rightarrow> redis_pool \<times> 'r \<Rightarrow> redis_pool \<times> 'r" where
  "RedisPool_Release env c st =
     (case st of (p, r) \<Rightarrow>
        if \<not> RedisPool_IsHealthy env (Some c) r
        then (p\<lparr>rp_total_created :=
                 (if 0 < rp_total_created p then size_dec (rp_total_created p) else rp_total_created p)\<rparr>,
              hr_free env c r)
        else (p\<lparr>rp_idle := rp_idle p @ [c]\<rparr>, r))"

definition redis_ops :: "'r redis_env \<Rightarrow> (redis_pool, 'r) pool_ops" where
  "redis_ops env =
     \<lparr>po_turn = RedisPool_turn env, po_connect = RedisPool_CreateConn env,
      po_connected = RedisPool_connected, po_release = RedisPool_Release env,
      po_idle = rp_idle, po_total = rp_total_created, po_max = rp_max_pool\<rparr>"

definition RedisPool_Acquire :: "'r redis_env \<Rightarrow> redis_pool \<times> 'r \<Rightarrow> conn option \<times> (redis_pool \<times> 'r)" where
  "RedisPool_Acquire env st = acquire_run (redis_ops env) (rpool_others env) (rpool_wakes env st) st"

section \<open>The laws\<close>

lemma redis_ops_simps [simp]:
  "po_turn (redis_ops env) = RedisPool_turn env" "po_connect (redis_ops env) = RedisPool_CreateConn env"
  "po_connected (redis_ops env) = RedisPool_connected" "po_release (redis_ops env) = RedisPool_Release env"
  "po_idle (redis_ops env) = rp_idle" "po_total (redis_ops env) = rp_total_created"
  "po_max (redis_ops env) = rp_max_pool"
  by (simp_all add: redis_ops_def)

lemma RedisPool_scan_Some:
  "RedisPool_scan env idle made r = (Some c, idle', made', r') \<Longrightarrow> length idle \<le> made \<Longrightarrow>
   \<exists>dead. idle = dead @ c # idle' \<and> made' = made - length dead \<and> \<not> hr_err env c r'"
proof (induction env idle made r rule: RedisPool_scan.induct)
  case (2 env x idle made r)
  show ?case
  proof (cases "RedisPool_IsHealthy env (Some x) r")
    case True
    with 2 show ?thesis by (intro exI [of _ "[]"]) (auto simp: RedisPool_IsHealthy_def)
  next
    case False
    with "2.prems" have "RedisPool_scan env idle (made - 1) (hr_free env x r) = (Some c, idle', made', r')"
      "length idle \<le> made - 1" by auto
    with "2.IH" [OF False] "2.prems"(2) obtain dead where "idle = dead @ c # idle'"
      "made' = made - 1 - length dead" "\<not> hr_err env c r'" by auto
    then show ?thesis by (intro exI [of _ "x # dead"]) simp
  qed
qed simp

lemma RedisPool_scan_None:
  "RedisPool_scan env idle made r = (None, idle', made', r') \<Longrightarrow> length idle \<le> made \<Longrightarrow>
   idle' = [] \<and> made' = made - length idle"
proof (induction env idle made r rule: RedisPool_scan.induct)
  case (2 env x idle made r)
  then have "\<not> RedisPool_IsHealthy env (Some x) r" by (auto split: if_splits)
  with 2 show ?case by auto
qed auto

interpretation redis: pool_laws "redis_ops env" for env :: "'r redis_env"
proof (unfold_locales, goal_cases)
  case (1 p w c p' w')
  then show ?case
    by (auto simp: RedisPool_turn_def Let_def split: prod.splits option.splits if_splits
        dest!: RedisPool_scan_Some)
next
  case (2 p w t p' w')
  then show ?case
    by (auto simp: RedisPool_turn_def Let_def split: prod.splits option.splits if_splits
        dest!: RedisPool_scan_None)
next
  case (3 c p t p')
  then show ?case by (auto simp: RedisPool_connected_def)
next
  case (4 p)
  then show ?case by (simp add: RedisPool_connected_def)
next
  case (5 c p w p' w')
  then show ?case by (auto simp: RedisPool_Release_def split: if_splits)
qed

section \<open>Guards\<close>

definition redis_quiet :: "'r redis_env \<Rightarrow> bool" where
  "redis_quiet env \<longleftrightarrow> (\<forall>st. fst (rpool_others env st) = fst st) \<and>
     (\<forall>st. \<forall>f \<in> set (rpool_wakes env st). \<forall>st'. fst (f st') = fst st')"

definition redis_ok :: "'r redis_env \<Rightarrow> redis_pool \<times> 'r \<Rightarrow> bool" where
  "redis_ok env st \<longleftrightarrow> redis_quiet env \<and> pool_ok (redis_ops env) (fst st)"

definition redis_lent :: "redis_pool \<times> 'r \<Rightarrow> nat" where
  "redis_lent st = rp_total_created (fst st) - length (rp_idle (fst st))"

lemma RedisPool_Acquire_ok:
  assumes "redis_ok env st" and "RedisPool_Acquire env st = (r, st')"
  shows "redis_ok env st' \<and> redis_lent st' = redis_lent st + (case r of Some _ \<Rightarrow> 1 | None \<Rightarrow> 0)"
proof -
  have "pool_ok (redis_ops env) (fst st') \<and> po_max (redis_ops env) (fst st') = po_max (redis_ops env) (fst st) \<and> pool_lent (redis_ops env) (fst st') =
      pool_lent (redis_ops env) (fst st) + (case r of Some _ \<Rightarrow> 1 | None \<Rightarrow> 0)"
    using assms unfolding redis_ok_def redis_quiet_def RedisPool_Acquire_def
    by (intro redis.acquire_run_ok [where others = "rpool_others env" and wakes = "rpool_wakes env st"]) blast+
  with assms(1) show ?thesis by (simp add: redis_ok_def pool_lent_def redis_lent_def)
qed

lemma RedisPool_Release_ok:
  assumes "redis_ok env st" and "0 < redis_lent st"
  shows "redis_ok env (RedisPool_Release env c st) \<and>
    redis_lent (RedisPool_Release env c st) = redis_lent st - 1"
proof -
  obtain p r p' r' where st: "st = (p, r)" and rel: "RedisPool_Release env c (p, r) = (p', r')"
    by (metis surj_pair)
  show ?thesis
    using redis.release_lent [of env p c r p' r'] assms rel
    by (simp add: st redis_ok_def pool_lent_def redis_lent_def)
qed

interpretation redisg: guard_laws "RedisPool_Acquire env" "RedisPool_Release env" "redis_ok env"
    redis_lent "\<lambda>s s'. fst s = fst s'" for env :: "'r redis_env"
proof (unfold_locales, goal_cases)
  case (1 s c s')
  then show ?case using RedisPool_Acquire_ok [of env s "Some c" s'] by simp
next
  case (2 s s')
  then show ?case using RedisPool_Acquire_ok [of env s None s'] by simp
next
  case (3 s c)
  then show ?case by (rule RedisPool_Release_ok)
next
  case (4 s s')
  then show ?case by (simp add: redis_ok_def redis_lent_def)
qed

lemma RedisPool_fill_frame:
  "RedisPool_fill env n p r = (p', r') \<Longrightarrow>
     rp_max_pool p' = rp_max_pool p \<and> length (rp_idle p') \<le> length (rp_idle p) + n"
proof (induction n arbitrary: p r)
  case (Suc n)
  then show ?case by (fastforce split: prod.splits option.splits)
qed simp

lemma RedisPool_new_start:
  assumes "RedisPool_new env host port pw mn mx r = (p, r')" and "mn \<le> mx"
  shows "rp_total_created p = length (rp_idle p) \<and> rp_total_created p \<le> mn \<and> rp_max_pool p = mx"
proof -
  let ?q = "\<lparr>rp_host = host, rp_port = port, rp_password = pw, rp_min_pool = mn, rp_max_pool = mx,
    rp_idle = [], rp_total_created = 0\<rparr>"
  obtain q r1 where fill: "RedisPool_fill env mn ?q r = (q, r1)" by fastforce
  then have "p = q\<lparr>rp_total_created := length (rp_idle q)\<rparr>"
    using assms(1) by (simp add: RedisPool_new_def)
  then show ?thesis using RedisPool_fill_frame [OF fill] assms(2) by simp
qed

section \<open>Properties\<close>

text \<open>
  C27: the Redis pool keeps the same books under every interleaving of its threads: the counter
  equals idle plus lent connections, stays below \<open>max_pool_\<close> plus the number of threads, and
  no connection has two owners.
\<close>

theorem redis_pool_accounting:
  assumes "RedisPool_new env host port pw mn mx r = (p, r')" and "mn \<le> mx" and "0 < N"
    and "mx + N < 2 ^ 64" and "distinct (rp_idle p)"
    and "pool_reach (redis_ops env) (pool_start p r' N) s"
  shows "rp_total_created (ps_pool s) = length (rp_idle (ps_pool s)) + lent_conns s \<and>
    rp_total_created (ps_pool s) < mx + N \<and>
    (\<forall>i < N. \<forall>c. ps_phases s ! i = Holding c \<longrightarrow> c \<notin> set (rp_idle (ps_pool s)) \<and>
       (\<forall>j < N. ps_phases s ! j = Holding c \<longrightarrow> j = i))"
proof -
  have inv: "pool_inv (redis_ops env) N mx s"
  proof (rule redis.inv_reach [OF assms(6) _ assms(4)])
    show "pool_inv (redis_ops env) N mx (pool_start p r' N)"
      using RedisPool_new_start [OF assms(1,2)] redis.inv_start [of env p N r'] assms(2,3,5) by auto
  qed
  have "\<forall>i < N. \<forall>c. ps_phases s ! i = Holding c \<longrightarrow> c \<notin> set (rp_idle (ps_pool s)) \<and>
      (\<forall>j < N. ps_phases s ! j = Holding c \<longrightarrow> j = i)"
    using redis.inv_exclusive [OF inv, unfolded redis.inv_unfold(5) [OF inv] redis_ops_simps] by blast
  moreover have "rp_total_created (ps_pool s) < mx + N"
    using redis.inv_unfold(2) [OF inv] by simp
  ultimately show ?thesis
    using redis.inv_unfold(1) [OF inv] by (simp only: redis_ops_simps simp_thms)
qed

text \<open>A Redis server that accepts every connection and the password \<open>redis_pwd_123\<close>.\<close>

definition counting_redis :: "nat redis_env" where
  "counting_redis =
     \<lparr>hr_connect = (\<lambda>h p r. (Some r, Suc r)), hr_err = (\<lambda>c r. False), hr_free = (\<lambda>c r. r),
      hr_command = (\<lambda>c ws r. (if ws = [''AUTH'', ''redis_pwd_123''] then Some (REPLY_STATUS ''OK'')
                              else Some REPLY_NIL, r)),
      hr_free_reply = (\<lambda>x r. r), rpool_others = (\<lambda>st. st), rpool_wakes = (\<lambda>st. [])\<rparr>"

abbreviation example_redis_pool :: redis_pool where
  "example_redis_pool \<equiv> \<lparr>rp_host = ''h'', rp_port = 6379, rp_password = ''redis_pwd_123'',
     rp_min_pool = 1, rp_max_pool = 50, rp_idle = [7], rp_total_created = 1\<rparr>"

lemma RedisPool_new_example:
  "RedisPool_new counting_redis ''h'' 6379 ''redis_pwd_123'' 1 50 7 = (example_redis_pool, 8)"
  by (simp add: RedisPool_new_def RedisPool_CreateConn_def counting_redis_def c_str_def NUL_def)

theorem redis_pool_accounting_witness:
  "\<exists>s. pool_reach (redis_ops counting_redis) (pool_start example_redis_pool 8 2) s \<and>
     ps_phases s = [Outside, Holding 7] \<and>
     rp_total_created (ps_pool s) = length (rp_idle (ps_pool s)) + lent_conns s"
proof -
  let ?p = "example_redis_pool\<lparr>rp_idle := []\<rparr>"
  let ?s = "sys_at ?p (8 :: nat) ([Outside] @ Holding 7 # [])"
  have turn: "po_turn (redis_ops counting_redis) example_redis_pool 8 = (Take 7, ?p, 8)"
    by (simp add: RedisPool_turn_def RedisPool_IsHealthy_def counting_redis_def)
  have start: "pool_start example_redis_pool 8 2 = sys_at example_redis_pool (8 :: nat) ([Outside] @ Outside # [])"
    by (simp add: pool_start_def numeral_2_eq_2)
  have reach: "pool_reach (redis_ops counting_redis) (pool_start example_redis_pool 8 2) ?s"
    unfolding start
    by (rule pool_reach.step [OF pool_reach.step [OF pool_reach.start step_call_at] step_take_at [OF turn]])
  have "rp_total_created (ps_pool ?s) = length (rp_idle (ps_pool ?s)) + lent_conns ?s"
    by (rule redis_pool_accounting [OF RedisPool_new_example _ _ _ _ reach, THEN conjunct1]) simp_all
  with reach show ?thesis by (intro exI [of _ ?s]) simp
qed

end
