(* ===== verification/Redis_Client.thy ===== *)
theory Redis_Client
  imports Redis_Pool
begin

text \<open>
  \<open>server/logic_server/pool_redis_client.cc\<close>: \<open>Set\<close> and \<open>Get\<close> on a pooled connection. The
  state is the pool together with the world of \<open>redis_env\<close>. \<open>redis_conforms\<close> states what
  the code relies on of the Redis server itself: \<open>SET\<close> stores, \<open>GET\<close> reads, and opening,
  closing and waiting do not touch the data.
\<close>

type_synonym 'r redis_st = "redis_pool \<times> 'r"

definition Redis_Set :: "'r redis_env \<Rightarrow> string \<Rightarrow> string \<Rightarrow> 'r redis_st \<Rightarrow> bool \<times> 'r redis_st" where
  "Redis_Set env key value =
     with_guard (RedisPool_Acquire env) (RedisPool_Release env) False
       (\<lambda>c (p, r). case hr_command env c [''SET'', c_str key, c_str value] r of
            (None, r1) \<Rightarrow> (False, (p, r1))
          | (Some reply, r1) \<Rightarrow>
              ((case reply of REPLY_ERROR _ \<Rightarrow> False | _ \<Rightarrow> True), (p, hr_free_reply env reply r1)))"

definition Redis_Get :: "'r redis_env \<Rightarrow> string \<Rightarrow> 'r redis_st \<Rightarrow> string option \<times> 'r redis_st" where
  "Redis_Get env key =
     with_guard (RedisPool_Acquire env) (RedisPool_Release env) None
       (\<lambda>c (p, r). case hr_command env c [''GET'', c_str key] r of
            (None, r1) \<Rightarrow> (None, (p, r1))
          | (Some reply, r1) \<Rightarrow>
              ((case reply of REPLY_STRING s \<Rightarrow> Some s | _ \<Rightarrow> None), (p, hr_free_reply env reply r1)))"

section \<open>The server the client relies on\<close>

text \<open>
  \<open>data\<close> reads the keyspace of string values out of the world. A command may always fail. An
  error reply to \<open>SET\<close> means that it was not executed; a null reply means that the connection
  broke, before or after the server executed it; when \<open>SET\<close> answers anything else the value is
  stored. A \<open>GET\<close> changes nothing, and when it answers anything but null or an error it tells
  the truth.
\<close>

definition reply_ok :: "redis_reply option \<Rightarrow> bool" where
  "reply_ok reply = (case reply of None \<Rightarrow> False | Some (REPLY_ERROR _) \<Rightarrow> False | Some _ \<Rightarrow> True)"

definition reply_string :: "redis_reply option \<Rightarrow> string option" where
  "reply_string reply = (case reply of Some (REPLY_STRING s) \<Rightarrow> Some s | _ \<Rightarrow> None)"

definition redis_conforms :: "'r redis_env \<Rightarrow> ('r \<Rightarrow> string \<rightharpoonup> string) \<Rightarrow> bool" where
  "redis_conforms env data \<longleftrightarrow>
     (\<forall>h pt r. data (snd (hr_connect env h pt r)) = data r) \<and>
     (\<forall>c r. data (hr_free env c r) = data r) \<and>
     (\<forall>x r. data (hr_free_reply env x r) = data r) \<and>
     (\<forall>c pw r. data (snd (hr_command env c [''AUTH'', pw] r)) = data r) \<and>
     (\<forall>st. data (snd (rpool_others env st)) = data (snd st)) \<and>
     (\<forall>st. \<forall>f \<in> set (rpool_wakes env st). \<forall>st'. data (snd (f st')) = data (snd st')) \<and>
     (\<forall>c k v r reply r'. hr_command env c [''SET'', k, v] r = (reply, r') \<longrightarrow>
        (reply_ok reply \<longrightarrow> data r' = (data r)(k \<mapsto> v)) \<and>
        (\<not> reply_ok reply \<longrightarrow> data r' = data r \<or> reply = None \<and> data r' = (data r)(k \<mapsto> v))) \<and>
     (\<forall>c k r reply r'. hr_command env c [''GET'', k] r = (reply, r') \<longrightarrow>
        data r' = data r \<and> (reply_ok reply \<longrightarrow> data r k = reply_string reply))"

section \<open>Frames\<close>

lemma redis_conformsD:
  assumes "redis_conforms env data"
  shows "data (snd (hr_connect env h pt r)) = data r" and "data (hr_free env c r) = data r"
    and "data (hr_free_reply env x r) = data r"
    and "data (snd (hr_command env c [''AUTH'', pw] r)) = data r"
    and "data (snd (rpool_others env st)) = data (snd st)"
    and "f \<in> set (rpool_wakes env st) \<Longrightarrow> data (snd (f st')) = data (snd st')"
  using assms by (simp_all only: redis_conforms_def)

lemma redis_conforms_SET:
  assumes "redis_conforms env data" and "hr_command env c [''SET'', k, v] r = (reply, r')"
  shows "if reply_ok reply then data r' = (data r)(k \<mapsto> v)
    else data r' = data r \<or> data r' = (data r)(k \<mapsto> v)"
proof -
  have "(reply_ok reply \<longrightarrow> data r' = (data r)(k \<mapsto> v)) \<and>
      (\<not> reply_ok reply \<longrightarrow> data r' = data r \<or> reply = None \<and> data r' = (data r)(k \<mapsto> v))"
    using assms unfolding redis_conforms_def by blast
  then show ?thesis by auto
qed

lemma redis_conforms_GET:
  assumes "redis_conforms env data" and "hr_command env c [''GET'', k] r = (reply, r')"
  shows "data r' = data r" and "reply_ok reply \<Longrightarrow> data r k = reply_string reply"
  using assms unfolding redis_conforms_def by blast+

lemma RedisPool_CreateConn_data:
  assumes "redis_conforms env data" and "RedisPool_CreateConn env p r = (x, r')"
  shows "data r' = data r"
proof -
  obtain o1 r1 where c: "hr_connect env (c_str (rp_host p)) (rp_port p) r = (o1, r1)" by fastforce
  then have r1: "data r1 = data r" using redis_conformsD(1) [OF assms(1)] by (metis snd_conv)
  show ?thesis
  proof (cases o1)
    case None
    with assms(2) c r1 show ?thesis by (simp add: RedisPool_CreateConn_def)
  next
    case (Some cn)
    obtain o2 r2 where a: "hr_command env cn [''AUTH'', c_str (rp_password p)] r1 = (o2, r2)" by fastforce
    then have "data r2 = data r1" using redis_conformsD(4) [OF assms(1)] by (metis snd_conv)
    with assms(2) c r1 a Some redis_conformsD(2,3) [OF assms(1)] show ?thesis
      by (auto simp: RedisPool_CreateConn_def split: if_splits option.splits redis_reply.splits)
  qed
qed

lemma RedisPool_scan_data:
  assumes "redis_conforms env data" and "RedisPool_scan env idle made r = (x, idle', made', r')"
  shows "data r' = data r"
  using assms
  by (induction env idle made r rule: RedisPool_scan.induct)
    (auto simp: redis_conformsD split: if_splits)

lemma RedisPool_turn_data:
  assumes "redis_conforms env data" and "RedisPool_turn env p r = (t, p', r')"
  shows "data r' = data r"
  using assms RedisPool_scan_data [OF assms(1)]
  by (fastforce simp: RedisPool_turn_def Let_def split: prod.splits option.splits)

lemma RedisPool_Acquire_data:
  assumes "redis_conforms env data" and "RedisPool_Acquire env st = (x, st')"
  shows "data (snd st') = data (snd st)"
proof (rule acquire_run_world [where I = data])
  show "acquire_run (redis_ops env) (rpool_others env) (rpool_wakes env st) st = (x, st')"
    using assms(2) by (simp add: RedisPool_Acquire_def)
next
  show "\<forall>p w t p' w'. po_turn (redis_ops env) p w = (t, p', w') \<longrightarrow> data w' = data w"
    using RedisPool_turn_data [OF assms(1)] by (simp add: redis_ops_def)
  show "\<forall>p w c w'. po_connect (redis_ops env) p w = (c, w') \<longrightarrow> data w' = data w"
    using RedisPool_CreateConn_data [OF assms(1)] by (simp add: redis_ops_def)
  show "\<forall>st. data (snd (rpool_others env st)) = data (snd st)"
    using redis_conformsD(5) [OF assms(1)] by blast
  show "data (snd (f st1)) = data (snd st1)" if "f \<in> set (rpool_wakes env st)" for f st1
    using redis_conformsD(6) [OF assms(1) that] .
qed

lemma RedisPool_Release_data:
  "redis_conforms env data \<Longrightarrow> data (snd (RedisPool_Release env c st)) = data (snd st)"
  by (cases st) (auto simp: RedisPool_Release_def redis_conformsD)

section \<open>What the two operations do\<close>

text \<open>A true result of \<open>Set\<close> means the value is stored; otherwise it may be.\<close>

lemma Redis_Set_data:
  assumes "redis_conforms env data" and "Redis_Set env key value st = (b, st')"
  shows "if b then data (snd st') = (data (snd st))(c_str key \<mapsto> c_str value)
    else data (snd st') = data (snd st) \<or> data (snd st') = (data (snd st))(c_str key \<mapsto> c_str value)"
proof -
  obtain g st1 where g: "RedisPool_Acquire env st = (g, st1)" by (metis surj_pair)
  obtain p r where st1: "st1 = (p, r)" by (cases st1)
  have r: "data r = data (snd st)" using RedisPool_Acquire_data [OF assms(1) g] by (simp add: st1)
  show ?thesis
  proof (cases g)
    case None
    with assms(2) g r show ?thesis by (auto simp: Redis_Set_def with_guard_def st1)
  next
    case (Some c)
    obtain reply r1 where cmd: "hr_command env c [''SET'', c_str key, c_str value] r = (reply, r1)"
      by fastforce
    have "b = reply_ok reply" and "data (snd st') = data r1"
      using assms(2) g Some cmd RedisPool_Release_data [OF assms(1)] redis_conformsD(3) [OF assms(1)]
      by (auto simp: Redis_Set_def with_guard_def st1 reply_ok_def split: option.splits redis_reply.splits)
    then show ?thesis using redis_conforms_SET [OF assms(1) cmd] r by (auto split: if_splits)
  qed
qed

text \<open>\<open>Get\<close> changes nothing; what it returns is stored under the key.\<close>

lemma Redis_Get_data:
  assumes "redis_conforms env data" and "Redis_Get env key st = (v, st')"
  shows "data (snd st') = data (snd st) \<and> (\<forall>s. v = Some s \<longrightarrow> data (snd st) (c_str key) = Some s)"
proof -
  obtain g st1 where g: "RedisPool_Acquire env st = (g, st1)" by (metis surj_pair)
  obtain p r where st1: "st1 = (p, r)" by (cases st1)
  have r: "data r = data (snd st)" using RedisPool_Acquire_data [OF assms(1) g] by (simp add: st1)
  show ?thesis
  proof (cases g)
    case None
    with assms(2) g r show ?thesis by (auto simp: Redis_Get_def with_guard_def st1)
  next
    case (Some c)
    obtain reply r1 where cmd: "hr_command env c [''GET'', c_str key] r = (reply, r1)" by fastforce
    have v: "v = reply_string reply" and d: "data (snd st') = data r1"
      using assms(2) g Some cmd RedisPool_Release_data [OF assms(1)] redis_conformsD(3) [OF assms(1)]
      by (auto simp: Redis_Get_def with_guard_def st1 reply_string_def split: option.splits redis_reply.splits)
    have "reply_ok reply" if "v = Some s" for s
      using that v by (auto simp: reply_string_def reply_ok_def split: option.splits redis_reply.splits)
    with redis_conforms_GET [OF assms(1) cmd] r d v show ?thesis by auto
  qed
qed

section \<open>A server that is up\<close>

text \<open>
  The server accepts connections and the password and answers both commands, and the pool has a
  place that is not lent.
\<close>

definition redis_reliable :: "'r redis_env \<Rightarrow> bool" where
  "redis_reliable env \<longleftrightarrow>
     (\<forall>h pt r. \<exists>c r'. hr_connect env h pt r = (Some c, r') \<and> \<not> hr_err env c r') \<and>
     (\<forall>c pw r. reply_ok (fst (hr_command env c [''AUTH'', pw] r))) \<and>
     (\<forall>c k v r. reply_ok (fst (hr_command env c [''SET'', k, v] r))) \<and>
     (\<forall>c k r. reply_ok (fst (hr_command env c [''GET'', k] r)))"

definition redis_up :: "'r redis_env \<Rightarrow> 'r redis_st \<Rightarrow> bool" where
  "redis_up env st \<longleftrightarrow> redis_reliable env \<and> redis_ok env st \<and> redis_lent st < rp_max_pool (fst st)"

lemma redis_reliable_CreateConn:
  assumes "redis_reliable env"
  shows "\<exists>c r'. RedisPool_CreateConn env p r = (Some c, r')"
proof -
  obtain c r1 where c: "hr_connect env (c_str (rp_host p)) (rp_port p) r = (Some c, r1)" "\<not> hr_err env c r1"
    using assms unfolding redis_reliable_def by blast
  obtain reply r2 where a: "hr_command env c [''AUTH'', c_str (rp_password p)] r1 = (reply, r2)" by fastforce
  have "reply_ok reply" using assms a unfolding redis_reliable_def by (metis fst_conv)
  with c a show ?thesis
    by (auto simp: RedisPool_CreateConn_def reply_ok_def split: option.splits redis_reply.splits)
qed

lemma redis_up_Acquire:
  assumes "redis_up env st"
  shows "\<exists>c st1. RedisPool_Acquire env st = (Some c, st1) \<and> redis_ok env st1 \<and>
    redis_lent st1 = Suc (redis_lent st) \<and> rp_max_pool (fst st1) = rp_max_pool (fst st)"
proof -
  obtain p r where st: "st = (p, r)" by (cases st)
  have ok: "redis_ok env st" "pool_ok (redis_ops env) p" "redis_quiet env"
    and rel: "redis_reliable env" and room: "redis_lent st < rp_max_pool p"
    using assms by (simp_all add: redis_up_def redis_ok_def st)
  obtain t p1 r1 where turn: "RedisPool_turn env p r = (t, p1, r1)" by (metis surj_pair)
  have got: "\<exists>c st1. RedisPool_Acquire env st = (Some c, st1)"
  proof (cases t)
    case (Take c)
    with turn show ?thesis unfolding RedisPool_Acquire_def st
      by (intro exI [of _ c] exI [of _ "(p1, r1)"] acquire_run_Take) simp
  next
    case Block
    with redis.turn_other_ok [OF ok(2), of r t p1 r1] turn ok(2) room
      redis.turn_other [of env p r t p1 r1]
    show ?thesis by (auto simp: pool_ok_def redis_lent_def st)
  next
    case Try_create
    obtain c r2 where c: "RedisPool_CreateConn env p1 r1 = (Some c, r2)"
      using redis_reliable_CreateConn [OF rel] by blast
    obtain p2 r3 where o: "rpool_others env (p1, r2) = (p2, r3)" by fastforce
    have "po_turn (redis_ops env) p r = (Try_create, p1, r1)"
      and "po_connect (redis_ops env) p1 r1 = (Some c, r2)"
      and "po_connected (redis_ops env) (Some c) p2 = (Take c, p2\<lparr>rp_total_created := size_inc (rp_total_created p2)\<rparr>)"
      using turn c Try_create by (simp_all add: RedisPool_connected_def)
    from acquire_run_created [where others = "rpool_others env", OF this(1,2) o this(3)] show ?thesis
      unfolding RedisPool_Acquire_def st by blast
  qed
  then obtain c st1 where acq: "RedisPool_Acquire env st = (Some c, st1)" by blast
  have "rp_max_pool (fst st1) = rp_max_pool (fst st)"
    using redis.acquire_run_ok [where others = "rpool_others env" and wakes = "rpool_wakes env st" and st = st and env = env]
      ok acq [unfolded RedisPool_Acquire_def] unfolding redis_ok_def redis_quiet_def by auto
  with RedisPool_Acquire_ok [OF ok(1) acq] acq show ?thesis by simp
qed

lemma redis_up_Release:
  assumes "redis_ok env st1" and "redis_reliable env" and "redis_lent st1 = Suc n" and "n < rp_max_pool (fst st1)"
  shows "redis_up env (RedisPool_Release env c st1)"
proof -
  have "rp_max_pool (fst (RedisPool_Release env c st1)) = rp_max_pool (fst st1)"
    by (cases st1) (simp add: RedisPool_Release_def)
  with RedisPool_Release_ok [OF assms(1), of c] assms show ?thesis by (simp add: redis_up_def)
qed

lemma redis_ok_world: "redis_ok env (p, r) \<Longrightarrow> redis_ok env (p, r')" "redis_lent (p, r') = redis_lent (p, r)"
  by (simp_all add: redis_ok_def redis_lent_def)

lemma Redis_Set_up:
  assumes "redis_up env st" and "Redis_Set env key value st = (b, st')"
  shows "b \<and> redis_up env st'"
proof -
  obtain c p r where acq: "RedisPool_Acquire env st = (Some c, (p, r))" and ok: "redis_ok env (p, r)"
    "redis_lent (p, r) = Suc (redis_lent st)" "rp_max_pool p = rp_max_pool (fst st)"
    using redis_up_Acquire [OF assms(1)] by auto
  have rel: "redis_reliable env" and room: "redis_lent st < rp_max_pool p"
    using assms(1) ok(3) by (simp_all add: redis_up_def)
  obtain reply r1 where cmd: "hr_command env c [''SET'', c_str key, c_str value] r = (reply, r1)" by fastforce
  have "reply_ok reply" using rel cmd unfolding redis_reliable_def by (metis fst_conv)
  then obtain x where x: "reply = Some x" "\<not> (\<exists>e. x = REPLY_ERROR e)"
    by (auto simp: reply_ok_def split: option.splits redis_reply.splits)
  have "b \<and> st' = RedisPool_Release env c (p, hr_free_reply env x r1)"
    using assms(2) acq cmd x by (auto simp: Redis_Set_def with_guard_def split: redis_reply.splits)
  moreover have "redis_up env (RedisPool_Release env c (p, hr_free_reply env x r1))"
    by (rule redis_up_Release [OF redis_ok_world(1) [OF ok(1)] rel _ _])
      (use ok(2) room in \<open>simp_all add: redis_lent_def\<close>)
  ultimately show ?thesis by simp
qed

lemma Redis_Get_up:
  assumes conf: "redis_conforms env data" and "redis_up env st" and "Redis_Get env key st = (v, st')"
  shows "v = data (snd st) (c_str key)"
proof -
  obtain c p r where acq: "RedisPool_Acquire env st = (Some c, (p, r))"
    using redis_up_Acquire [OF assms(2)] by auto
  have r: "data r = data (snd st)" using RedisPool_Acquire_data [OF conf acq] by simp
  obtain reply r1 where cmd: "hr_command env c [''GET'', c_str key] r = (reply, r1)" by fastforce
  have "reply_ok reply" using assms(2) cmd unfolding redis_up_def redis_reliable_def by (metis fst_conv)
  moreover have "v = reply_string reply"
    using assms(3) acq cmd
    by (auto simp: Redis_Get_def with_guard_def reply_string_def split: option.splits redis_reply.splits)
  ultimately show ?thesis using redis_conforms_GET(2) [OF conf cmd] r by simp
qed

section \<open>Properties\<close>

text \<open>
  C38: a value that is set is the value got. When the server is up and the pool has a place,
  \<open>Set\<close> succeeds, exactly the one key changes, and a following \<open>Get\<close> of the key returns the
  value up to its first zero byte. When anything may fail, \<open>Set\<close> still changes no other key, a
  \<open>Get\<close> after a reported success returns this value or nothing, and \<open>Get\<close> changes nothing.
\<close>

theorem Redis_Set_Get:
  assumes "redis_conforms env data" and "Redis_Set env key value st = (b, st1)"
    and "Redis_Get env key st1 = (v, st2)"
  shows "(redis_up env st \<longrightarrow> b \<and> v = Some (c_str value)) \<and> (b \<longrightarrow> v = None \<or> v = Some (c_str value)) \<and>
    (b \<longrightarrow> data (snd st1) = (data (snd st))(c_str key \<mapsto> c_str value)) \<and>
    (\<forall>k. k \<noteq> c_str key \<longrightarrow> data (snd st1) k = data (snd st) k) \<and> data (snd st2) = data (snd st1)"
proof -
  note S = Redis_Set_data [OF assms(1,2)] and G = Redis_Get_data [OF assms(1,3)]
  have "b \<and> v = Some (c_str value)" if "redis_up env st"
    using Redis_Set_up [OF that assms(2)] Redis_Get_up [OF assms(1) _ assms(3)] S by simp
  moreover have "v = None \<or> v = Some (c_str value)" if b
    using S G that by (cases v) auto
  ultimately show ?thesis using S G by (auto split: if_splits)
qed

text \<open>A Redis server that keeps its data in a map.\<close>

definition mem_redis :: "(string \<rightharpoonup> string) redis_env" where
  "mem_redis =
     \<lparr>hr_connect = (\<lambda>h p r. (Some 7, r)), hr_err = (\<lambda>c r. False), hr_free = (\<lambda>c r. r),
      hr_command = (\<lambda>c ws r. case ws of
          [verb, k, v] \<Rightarrow> if verb = ''SET'' then (Some (REPLY_STATUS ''OK''), r(k \<mapsto> v)) else (None, r)
        | [verb, k] \<Rightarrow> if verb = ''GET'' then
            (case r k of Some v \<Rightarrow> (Some (REPLY_STRING v), r) | None \<Rightarrow> (Some REPLY_NIL, r))
            else if verb = ''AUTH'' then (Some (REPLY_STATUS ''OK''), r) else (None, r)
        | _ \<Rightarrow> (None, r)),
      hr_free_reply = (\<lambda>x r. r), rpool_others = (\<lambda>st. st), rpool_wakes = (\<lambda>st. [])\<rparr>"

lemma mem_redis_conforms: "redis_conforms mem_redis (\<lambda>r. r)"
  by (auto simp: redis_conforms_def mem_redis_def reply_ok_def reply_string_def split: option.splits)

lemma mem_redis_Acquire:
  "rp_idle p = c # cs \<Longrightarrow> RedisPool_Acquire mem_redis (p, r) = (Some c, (p\<lparr>rp_idle := cs\<rparr>, r))"
  by (simp add: RedisPool_Acquire_def RedisPool_turn_def RedisPool_IsHealthy_def mem_redis_def)

lemma mem_redis_Release:
  "RedisPool_Release mem_redis c (p, r) = (p\<lparr>rp_idle := rp_idle p @ [c]\<rparr>, r)"
  by (simp add: RedisPool_Release_def RedisPool_IsHealthy_def mem_redis_def)

lemma mem_redis_commands:
  "hr_command mem_redis c [''SET'', k, v] r = (Some (REPLY_STATUS ''OK''), r(k \<mapsto> v))"
  "hr_command mem_redis c [''GET'', k] r =
     ((case r k of Some v \<Rightarrow> Some (REPLY_STRING v) | None \<Rightarrow> Some REPLY_NIL), r)"
  "hr_free_reply mem_redis x r = r"
  by (simp_all add: mem_redis_def split: option.splits)

lemma mem_redis_Set:
  "rp_idle p = c # cs \<Longrightarrow> Redis_Set mem_redis k v (p, r) =
     (True, (p\<lparr>rp_idle := cs @ [c]\<rparr>, r(c_str k \<mapsto> c_str v)))"
  by (simp add: Redis_Set_def with_guard_def mem_redis_Acquire mem_redis_Release mem_redis_commands)

lemma mem_redis_Get:
  "rp_idle p = c # cs \<Longrightarrow> Redis_Get mem_redis k (p, r) = (r (c_str k), (p\<lparr>rp_idle := cs @ [c]\<rparr>, r))"
  by (simp add: Redis_Get_def with_guard_def mem_redis_Acquire mem_redis_Release mem_redis_commands
      split: option.splits)

lemma mem_redis_up: "redis_up mem_redis (example_redis_pool, r)"
  by (auto simp: redis_up_def redis_reliable_def redis_ok_def redis_quiet_def pool_ok_def redis_lent_def
      mem_redis_def reply_ok_def split: option.splits)

theorem Redis_Set_Get_witness:
  "\<exists>b v st1 st2. Redis_Set mem_redis ''k'' ''v'' (example_redis_pool, Map.empty) = (b, st1) \<and>
     Redis_Get mem_redis ''k'' st1 = (v, st2) \<and> b \<and> v = Some ''v''"
proof -
  obtain b st1 where s: "Redis_Set mem_redis ''k'' ''v'' (example_redis_pool, Map.empty) = (b, st1)"
    by (metis surj_pair)
  obtain v st2 where g: "Redis_Get mem_redis ''k'' st1 = (v, st2)" by (metis surj_pair)
  have "b \<and> v = Some (c_str ''v'')"
    using Redis_Set_Get [OF mem_redis_conforms s g] mem_redis_up by blast
  then have "b" and "v = Some ''v''" by (simp_all add: c_str_def NUL_def)
  with s g show ?thesis by blast
qed

end
