(* ===== verification/Config.thy ===== *)
theory Config
  imports Cpp_Text
begin

text \<open>
  \<open>common/config/config.h\<close>: the settings of both servers and \<open>Config::Load\<close>. yaml-cpp is
  the record \<open>yaml\<close>: loading a file, subscripting a node and \<open>as<T>(fallback)\<close>, each of
  which may raise an exception (\<open>None\<close>). \<open>Load\<close> assigns its fourteen fields one after the
  other, so an exception leaves the ones before it assigned.
\<close>

section \<open>Settings\<close>

record RedisConfig =
  rc_host :: string
  rc_port :: i32
  rc_password :: string

record PostgresConfig =
  pc_host :: string
  pc_port :: i32
  pc_user :: string
  pc_password :: string
  pc_dbname :: string

record GrpcConfig =
  gc_logic_server_addr :: string
  gc_gateway_server_addr :: string
  gc_logic_server_listen_addr :: string
  gc_gateway_server_listen_addr :: string

record SeaweedFSConfig =
  sc_master_endpoint :: string
  sc_public_endpoint :: string

record ServerConfig =
  sv_redis :: RedisConfig
  sv_postgres :: PostgresConfig
  sv_grpc :: GrpcConfig
  sv_seaweedfs :: SeaweedFSConfig

text \<open>The object of static storage before the first \<open>Load\<close>.\<close>

definition ServerConfig_initial :: ServerConfig where
  "ServerConfig_initial =
     \<lparr>sv_redis = \<lparr>rc_host = [], rc_port = 0, rc_password = []\<rparr>,
      sv_postgres = \<lparr>pc_host = [], pc_port = 0, pc_user = [], pc_password = [], pc_dbname = []\<rparr>,
      sv_grpc = \<lparr>gc_logic_server_addr = [], gc_gateway_server_addr = [],
                 gc_logic_server_listen_addr = [], gc_gateway_server_listen_addr = []\<rparr>,
      sv_seaweedfs = \<lparr>sc_master_endpoint = [], sc_public_endpoint = []\<rparr>\<rparr>"

section \<open>Loading\<close>

record 'n yaml =
  y_LoadFile :: "string \<Rightarrow> 'n option"
  y_sub :: "'n \<Rightarrow> string \<Rightarrow> 'n option"
  y_as_string :: "'n \<Rightarrow> string \<Rightarrow> string option"
  y_as_int :: "'n \<Rightarrow> i32 \<Rightarrow> i32 option"

definition y_at :: "'n yaml \<Rightarrow> 'n \<Rightarrow> string \<Rightarrow> string \<Rightarrow> 'n option" where
  "y_at y root sec key = Option.bind (y_sub y root sec) (\<lambda>n. y_sub y n key)"

text \<open>\<open>config_.f = config[sec][key].as<T>(fallback)\<close>.\<close>

definition set_string ::
  "'n yaml \<Rightarrow> 'n \<Rightarrow> string \<Rightarrow> string \<Rightarrow> string \<Rightarrow> (string \<Rightarrow> ServerConfig \<Rightarrow> ServerConfig) \<Rightarrow>
   ServerConfig \<Rightarrow> ServerConfig option" where
  "set_string y root sec key fallback upd cfg =
     map_option (\<lambda>v. upd v cfg) (Option.bind (y_at y root sec key) (\<lambda>n. y_as_string y n fallback))"

definition set_int ::
  "'n yaml \<Rightarrow> 'n \<Rightarrow> string \<Rightarrow> string \<Rightarrow> i32 \<Rightarrow> (i32 \<Rightarrow> ServerConfig \<Rightarrow> ServerConfig) \<Rightarrow>
   ServerConfig \<Rightarrow> ServerConfig option" where
  "set_int y root sec key fallback upd cfg =
     map_option (\<lambda>v. upd v cfg) (Option.bind (y_at y root sec key) (\<lambda>n. y_as_int y n fallback))"

fun assign_all :: "(ServerConfig \<Rightarrow> ServerConfig option) list \<Rightarrow> ServerConfig \<Rightarrow> bool \<times> ServerConfig" where
  "assign_all [] cfg = (True, cfg)"
| "assign_all (a # as) cfg =
     (case a cfg of None \<Rightarrow> (False, cfg) | Some cfg' \<Rightarrow> assign_all as cfg')"

definition load_redis :: "'n yaml \<Rightarrow> 'n \<Rightarrow> (ServerConfig \<Rightarrow> ServerConfig option) list" where
  "load_redis y root =
     [set_string y root ''redis'' ''host'' ''0.0.0.0'' (\<lambda>v. sv_redis_update (rc_host_update (\<lambda>_. v))),
      set_int y root ''redis'' ''port'' 6379 (\<lambda>v. sv_redis_update (rc_port_update (\<lambda>_. v))),
      set_string y root ''redis'' ''password'' ''redis_pwd_123''
        (\<lambda>v. sv_redis_update (rc_password_update (\<lambda>_. v)))]"

definition load_postgres :: "'n yaml \<Rightarrow> 'n \<Rightarrow> (ServerConfig \<Rightarrow> ServerConfig option) list" where
  "load_postgres y root =
     [set_string y root ''postgres'' ''host'' ''127.0.0.1'' (\<lambda>v. sv_postgres_update (pc_host_update (\<lambda>_. v))),
      set_int y root ''postgres'' ''port'' 5432 (\<lambda>v. sv_postgres_update (pc_port_update (\<lambda>_. v))),
      set_string y root ''postgres'' ''user'' ''admin'' (\<lambda>v. sv_postgres_update (pc_user_update (\<lambda>_. v))),
      set_string y root ''postgres'' ''password'' ''admin_pwd''
        (\<lambda>v. sv_postgres_update (pc_password_update (\<lambda>_. v))),
      set_string y root ''postgres'' ''dbname'' ''LetsChat''
        (\<lambda>v. sv_postgres_update (pc_dbname_update (\<lambda>_. v)))]"

definition load_grpc :: "'n yaml \<Rightarrow> 'n \<Rightarrow> (ServerConfig \<Rightarrow> ServerConfig option) list" where
  "load_grpc y root =
     [set_string y root ''grpc'' ''logic_server_addr'' ''0.0.0.0:50051''
        (\<lambda>v. sv_grpc_update (gc_logic_server_addr_update (\<lambda>_. v))),
      set_string y root ''grpc'' ''gateway_server_addr'' ''0.0.0.0:50052''
        (\<lambda>v. sv_grpc_update (gc_gateway_server_addr_update (\<lambda>_. v))),
      set_string y root ''grpc'' ''logic_server_listen_addr'' ''0.0.0.0:50051''
        (\<lambda>v. sv_grpc_update (gc_logic_server_listen_addr_update (\<lambda>_. v))),
      set_string y root ''grpc'' ''gateway_server_listen_addr'' ''0.0.0.0:50052''
        (\<lambda>v. sv_grpc_update (gc_gateway_server_listen_addr_update (\<lambda>_. v)))]"

definition load_seaweedfs :: "'n yaml \<Rightarrow> 'n \<Rightarrow> (ServerConfig \<Rightarrow> ServerConfig option) list" where
  "load_seaweedfs y root =
     [set_string y root ''seaweedfs'' ''master_endpoint'' ''http://127.0.0.1:9333''
        (\<lambda>v. sv_seaweedfs_update (sc_master_endpoint_update (\<lambda>_. v))),
      set_string y root ''seaweedfs'' ''public_endpoint'' ''http://127.0.0.1:8080''
        (\<lambda>v. sv_seaweedfs_update (sc_public_endpoint_update (\<lambda>_. v)))]"

definition Load :: "'n yaml \<Rightarrow> string \<Rightarrow> ServerConfig \<Rightarrow> bool \<times> ServerConfig" where
  "Load y config_file cfg =
     (case y_LoadFile y config_file of
        None \<Rightarrow> (False, cfg)
      | Some root \<Rightarrow>
          assign_all (load_redis y root @ load_postgres y root @ load_grpc y root @ load_seaweedfs y root) cfg)"

lemmas load_defs = load_redis_def load_postgres_def load_grpc_def load_seaweedfs_def

lemma assign_all_append:
  "assign_all (as @ bs) cfg =
     (case assign_all as cfg of (True, cfg') \<Rightarrow> assign_all bs cfg' | (False, cfg') \<Rightarrow> (False, cfg'))"
  by (induction as arbitrary: cfg) (auto split: option.splits)

section \<open>What a file means\<close>

text \<open>
  A document that holds a value for some settings: \<open>doc sec key\<close>. The node of a setting that
  the document does not have yields the fallback.
\<close>

definition setting :: "(string \<Rightarrow> string \<Rightarrow> 'v option) \<Rightarrow> string \<Rightarrow> string \<Rightarrow> 'v \<Rightarrow> 'v" where
  "setting doc sec key fallback = (case doc sec key of None \<Rightarrow> fallback | Some v \<Rightarrow> v)"

definition yaml_reads ::
  "'n yaml \<Rightarrow> string \<Rightarrow> (string \<Rightarrow> string \<Rightarrow> string option) \<Rightarrow> (string \<Rightarrow> string \<Rightarrow> i32 option) \<Rightarrow> bool" where
  "yaml_reads y file texts ints \<longleftrightarrow> (\<exists>root. y_LoadFile y file = Some root \<and>
     (\<forall>sec key. \<exists>n. y_at y root sec key = Some n \<and>
        (\<forall>fb. y_as_string y n fb = Some (setting texts sec key fb)) \<and>
        (\<forall>fb. y_as_int y n fb = Some (setting ints sec key fb))))"

definition configured ::
  "(string \<Rightarrow> string \<Rightarrow> string option) \<Rightarrow> (string \<Rightarrow> string \<Rightarrow> i32 option) \<Rightarrow> ServerConfig" where
  "configured texts ints =
     \<lparr>sv_redis = \<lparr>rc_host = setting texts ''redis'' ''host'' ''0.0.0.0'',
                  rc_port = setting ints ''redis'' ''port'' 6379,
                  rc_password = setting texts ''redis'' ''password'' ''redis_pwd_123''\<rparr>,
      sv_postgres = \<lparr>pc_host = setting texts ''postgres'' ''host'' ''127.0.0.1'',
                     pc_port = setting ints ''postgres'' ''port'' 5432,
                     pc_user = setting texts ''postgres'' ''user'' ''admin'',
                     pc_password = setting texts ''postgres'' ''password'' ''admin_pwd'',
                     pc_dbname = setting texts ''postgres'' ''dbname'' ''LetsChat''\<rparr>,
      sv_grpc = \<lparr>gc_logic_server_addr = setting texts ''grpc'' ''logic_server_addr'' ''0.0.0.0:50051'',
                 gc_gateway_server_addr = setting texts ''grpc'' ''gateway_server_addr'' ''0.0.0.0:50052'',
                 gc_logic_server_listen_addr =
                   setting texts ''grpc'' ''logic_server_listen_addr'' ''0.0.0.0:50051'',
                 gc_gateway_server_listen_addr =
                   setting texts ''grpc'' ''gateway_server_listen_addr'' ''0.0.0.0:50052''\<rparr>,
      sv_seaweedfs = \<lparr>sc_master_endpoint = setting texts ''seaweedfs'' ''master_endpoint'' ''http://127.0.0.1:9333'',
                      sc_public_endpoint = setting texts ''seaweedfs'' ''public_endpoint'' ''http://127.0.0.1:8080''\<rparr>\<rparr>"

text \<open>
  C40: \<open>Load\<close> succeeds on a readable document and every setting has the value of the document
  or else the default in the code, whatever was loaded before. On an unreadable file it
  reports failure and changes nothing.
\<close>

theorem Load_settings:
  "(yaml_reads y file texts ints \<longrightarrow> Load y file cfg = (True, configured texts ints)) \<and>
   (y_LoadFile y file = None \<longrightarrow> Load y file cfg = (False, cfg))"
proof (intro conjI impI)
  assume "yaml_reads y file texts ints"
  then obtain root where root: "y_LoadFile y file = Some root" and at:
    "\<exists>n. y_at y root sec key = Some n \<and>
        (\<forall>fb. y_as_string y n fb = Some (setting texts sec key fb)) \<and>
        (\<forall>fb. y_as_int y n fb = Some (setting ints sec key fb))" for sec key
    unfolding yaml_reads_def by blast
  have s: "set_string y root sec key fb upd c = Some (upd (setting texts sec key fb) c)"
    and i: "set_int y root sec key fi updi c = Some (updi (setting ints sec key fi) c)"
    for sec key fb upd c fi updi
    using at [of sec key] by (auto simp: set_string_def set_int_def)
  show "Load y file cfg = (True, configured texts ints)"
    by (cases cfg) (simp add: Load_def root load_defs s i configured_def)
qed (simp add: Load_def)

text \<open>
  A file system with one document, \<open>config.yaml\<close>, that sets the address of the Redis server
  and nothing else. A node is the path that leads to it.
\<close>

definition one_setting_yaml :: "string list yaml" where
  "one_setting_yaml =
     \<lparr>y_LoadFile = (\<lambda>f. if f = ''config.yaml'' then Some [] else None),
      y_sub = (\<lambda>n key. Some (n @ [key])),
      y_as_string = (\<lambda>n fb. Some (if n = [''redis'', ''host''] then ''10.0.0.5'' else fb)),
      y_as_int = (\<lambda>n fb. Some fb)\<rparr>"

theorem Load_settings_witness:
  "\<exists>cfg. Load one_setting_yaml ''config.yaml'' ServerConfig_initial = (True, cfg) \<and>
     rc_host (sv_redis cfg) = ''10.0.0.5'' \<and> rc_port (sv_redis cfg) = 6379 \<and>
     pc_password (sv_postgres cfg) = ''admin_pwd''"
proof -
  let ?texts = "\<lambda>sec key. if sec = ''redis'' \<and> key = ''host'' then Some ''10.0.0.5'' else None"
  have "yaml_reads one_setting_yaml ''config.yaml'' ?texts (\<lambda>sec key. None)"
    by (auto simp: yaml_reads_def one_setting_yaml_def y_at_def setting_def)
  from Load_settings [THEN conjunct1, rule_format, OF this, of ServerConfig_initial] show ?thesis
    by (simp add: configured_def setting_def)
qed

end
