(* ===== verification/Logic_Server.thy ===== *)
theory Logic_Server
  imports Packet S3_Client Db_Spec Redis_Client Config
begin

text \<open>
  \<open>server/logic_server/main.cc\<close>: the ten handlers of \<open>LogicServiceImpl\<close> and the start of the
  process. The state of the process is the record \<open>logic\<close>: the database pool and the Redis
  pool with their worlds, the storage client, and the rest of the outside world (clocks, other
  gateways). A handler answers the reply and the new state; \<open>Inl\<close> is an exception that leaves
  the handler, which gRPC turns into a failed status without a reply. Log lines are not
  modelled.
\<close>

section \<open>State and environment\<close>

record ('d, 'r, 'n, 'g) logic =
  lg_db :: "'d db_st"
  lg_redis :: "'r redis_st"
  lg_s3 :: S3Client
  lg_net :: 'n
  lg_world :: 'g

text \<open>
  \<open>le_now\<close> is \<open>system_clock::now().time_since_epoch().count()\<close>, \<open>le_time\<close> is
  \<open>time(nullptr)\<close>. \<open>le_push\<close> is the call of \<open>PushMsg\<close> on the gateway at an address, with its
  deadline of two seconds: \<open>None\<close> is a status that is not OK.
\<close>

record ('d, 'r, 'n, 'g) logic_env =
  le_pg :: "'d pg_env"
  le_redis :: "'r redis_env"
  le_net :: "'n net_env"
  le_now :: "'g \<Rightarrow> i64"
  le_time :: "'g \<Rightarrow> i64"
  le_endian :: endian
  le_serialize :: "MsgPush \<Rightarrow> bytes"
  le_push :: "string \<Rightarrow> PushMsgReq \<Rightarrow> 'g \<Rightarrow> PushMsgRes option \<times> 'g"

type_synonym ('a, 'd, 'r, 'n, 'g) handler =
  "('d, 'r, 'n, 'g) logic \<Rightarrow> 'a throws \<times> ('d, 'r, 'n, 'g) logic"

text \<open>A call of the database or Redis client from a handler.\<close>

definition db_do ::
  "('d db_st \<Rightarrow> 'a throws \<times> 'd db_st) \<Rightarrow> ('a \<Rightarrow> ('b, 'd, 'r, 'n, 'g) handler) \<Rightarrow>
   ('b, 'd, 'r, 'n, 'g) handler" where
  "db_do call k L =
     (case call (lg_db L) of
        (Inl e, db) \<Rightarrow> (Inl e, L\<lparr>lg_db := db\<rparr>)
      | (Inr x, db) \<Rightarrow> k x (L\<lparr>lg_db := db\<rparr>))"

definition redis_do ::
  "('r redis_st \<Rightarrow> 'a \<times> 'r redis_st) \<Rightarrow> ('a \<Rightarrow> ('b, 'd, 'r, 'n, 'g) handler) \<Rightarrow>
   ('b, 'd, 'r, 'n, 'g) handler" where
  "redis_do call k L = (case call (lg_redis L) of (x, rs) \<Rightarrow> k x (L\<lparr>lg_redis := rs\<rparr>))"

definition done_with :: "'a \<Rightarrow> ('a, 'd, 'r, 'n, 'g) handler" where
  "done_with x L = (Inr x, L)"

lemma db_do_Inr [simp]: "call (lg_db L) = (Inr x, db) \<Longrightarrow> db_do call k L = k x (L\<lparr>lg_db := db\<rparr>)"
  by (simp add: db_do_def)

lemma db_do_Inl [simp]: "call (lg_db L) = (Inl e, db) \<Longrightarrow> db_do call k L = (Inl e, L\<lparr>lg_db := db\<rparr>)"
  by (simp add: db_do_def)

lemma redis_do_eq [simp]: "call (lg_redis L) = (x, rs) \<Longrightarrow> redis_do call k L = k x (L\<lparr>lg_redis := rs\<rparr>)"
  by (simp add: redis_do_def)

lemma done_with_eq [simp]: "done_with x L = (Inr x, L)"
  by (simp add: done_with_def)

section \<open>Handlers\<close>

definition session_key :: "i64 \<Rightarrow> string" where
  "session_key uid = ''IM:USER:SESS'' @ to_string uid"

definition gateway_addr :: string where
  "gateway_addr = ''0.0.0.0:50052''"

definition Login ::
  "('d, 'r, 'n, 'g) logic_env \<Rightarrow> LoginReq \<Rightarrow> (LoginRes, 'd, 'r, 'n, 'g) handler" where
  "Login env request =
     db_do (GetUserPassword (le_pg env) (lq_uid request)) (\<lambda>db_password.
       if db_password \<noteq> [] \<and> db_password = lq_token request then
         redis_do (Redis_Set (le_redis env) (session_key (lq_uid request)) gateway_addr) (\<lambda>stored.
           done_with (LoginRes_default\<lparr>lr_err_code := ERR_SUCCESS,
                        lr_session_id := ''sess_'' @ to_string (lq_uid request)\<rparr>))
       else
         done_with (LoginRes_default\<lparr>lr_err_code := ERR_AUTH_FAIL, lr_err_msg := ''Invalid token''\<rparr>))"

definition route_key :: "i64 \<Rightarrow> string" where
  "route_key uid = ''IM:USER:SESS:'' @ to_string uid"

text \<open>The push to the gateway on which the receiver is connected; its result is only logged.\<close>

definition push_to_gateway ::
  "('d, 'r, 'n, 'g) logic_env \<Rightarrow> string \<Rightarrow> ChatMsg \<Rightarrow> ('d, 'r, 'n, 'g) logic \<Rightarrow> ('d, 'r, 'n, 'g) logic" where
  "push_to_gateway env addr msg L =
     (let push_req = \<lparr>psq_to_uid = cm_to_uid msg,
                      psq_content = PackPushMsg (le_endian env) (le_serialize env) msg\<rparr>
      in L\<lparr>lg_world := snd (le_push env addr push_req (lg_world L))\<rparr>)"

text \<open>The routing of a stored (or lost) message and the reply, then the storing before it.\<close>

definition route_msg ::
  "('d, 'r, 'n, 'g) logic_env \<Rightarrow> ChatMsg \<Rightarrow> i64 \<Rightarrow> (MsgSendRes, 'd, 'r, 'n, 'g) handler" where
  "route_msg env msg msg_id =
     redis_do (Redis_Get (le_redis env) (route_key (cm_to_uid msg))) (\<lambda>gateway_addr_opt L1.
       let L2 = (case gateway_addr_opt of
                   Some addr \<Rightarrow> push_to_gateway env addr msg L1
                 | None \<Rightarrow> L1)
       in done_with (MsgSendRes_default\<lparr>sr_err_code := ERR_SUCCESS, sr_msg_id := msg_id,
                       sr_create_time := le_time env (lg_world L2)\<rparr>) L2)"

definition store_msg ::
  "('d, 'r, 'n, 'g) logic_env \<Rightarrow> ChatMsg \<Rightarrow> (MsgSendRes, 'd, 'r, 'n, 'g) handler" where
  "store_msg env msg L =
     (let msg_id = le_now env (lg_world L) in
      db_do (SaveMessage (le_pg env) (to_string msg_id) (cm_from_uid msg) (cm_to_uid msg) (cm_content msg))
        (\<lambda>saved. route_msg env msg msg_id) L)"

definition SendMsg ::
  "('d, 'r, 'n, 'g) logic_env \<Rightarrow> MsgSendReq \<Rightarrow> (MsgSendRes, 'd, 'r, 'n, 'g) handler" where
  "SendMsg env request =
     (let msg = sq_msg request in
      db_do (AreFriends (le_pg env) (cm_from_uid msg) (cm_to_uid msg)) (\<lambda>friends.
        if \<not> friends then
          done_with (MsgSendRes_default\<lparr>sr_err_code := ERR_NOT_FRIEND,
                       sr_err_msg := ''You must be friend to send message''\<rparr>)
        else store_msg env msg))"

definition SyncMsg ::
  "('d, 'r, 'n, 'g) logic_env \<Rightarrow> SyncMsgReq \<Rightarrow> (SyncMsgRes, 'd, 'r, 'n, 'g) handler" where
  "SyncMsg env request =
     db_do (GetofflineMsgs (le_pg env) (yq_uid request) (yq_last_msg_id request)) (\<lambda>history_msgs.
       done_with (SyncMsgRes_default\<lparr>yr_err_code := err_number ERR_SUCCESS, yr_msgs := history_msgs\<rparr>))"

definition RegisterUser ::
  "('d, 'r, 'n, 'g) logic_env \<Rightarrow> RegisterReq \<Rightarrow> (RegisterRes, 'd, 'r, 'n, 'g) handler" where
  "RegisterUser env request =
     db_do (CreateUser (le_pg env) (rq_nickname request) (rq_password request) (rq_email request)) (\<lambda>uid.
       if 0 <s uid then done_with (RegisterRes_default\<lparr>rr_err_code := 0, rr_uid := uid\<rparr>)
       else done_with (RegisterRes_default\<lparr>rr_err_code := 1, rr_err_msg := ''create user failed''\<rparr>))"

definition token_key :: "i64 \<Rightarrow> string" where
  "token_key uid = ''IM:USER:TOKEN'' @ to_string uid"

definition HttpLogin ::
  "('d, 'r, 'n, 'g) logic_env \<Rightarrow> HttpLoginReq \<Rightarrow> (HttpLoginRes, 'd, 'r, 'n, 'g) handler" where
  "HttpLogin env request =
     db_do (CheckUserByEmail (le_pg env) (hq_email request) (hq_password request) HttpLoginRes_default)
       (\<lambda>(ok, reply).
         if ok then
           redis_do (Redis_Set (le_redis env) (token_key (hr_uid reply)) (hq_password request)) (\<lambda>stored.
             done_with (reply\<lparr>hr_err_code := 0\<rparr>))
         else done_with (reply\<lparr>hr_err_code := 1, hr_err_msg := ''Invaild email or passwrod''\<rparr>))"

definition object_key :: "i64 \<Rightarrow> i64 \<Rightarrow> string \<Rightarrow> string" where
  "object_key uid now file_name = to_string uid @ ''/'' @ to_string now @ ''_'' @ file_name"

text \<open>\<open>None\<close> when the storage master never closes its connection (see \<open>HttpGet\<close>).\<close>

definition GetUploadUrl ::
  "('d, 'r, 'n, 'g) logic_env \<Rightarrow> GetUploadUrlReq \<Rightarrow> ('d, 'r, 'n, 'g) logic \<Rightarrow>
   (GetUploadUrlRes \<times> ('d, 'r, 'n, 'g) logic) option" where
  "GetUploadUrl env request L =
     (let key = object_key (uq_uid request) (le_now env (lg_world L)) (uq_file_name request) in
      case GetPresignedPutUrl (le_net env) key (lg_s3 L, lg_net L) of
        None \<Rightarrow> None
      | Some (upload_url, s3, n) \<Rightarrow>
          let L1 = L\<lparr>lg_s3 := s3, lg_net := n\<rparr>; download_url = GetDownloadUrl key s3 in
          if upload_url = [] \<or> download_url = [] then
            Some (GetUploadUrlRes_default\<lparr>ur_err_code := err_number ERR_SYS_ERROR,
                    ur_err_msg := ''SeaweedFS unavailable''\<rparr>, L1)
          else
            Some (GetUploadUrlRes_default\<lparr>ur_err_code := err_number ERR_SUCCESS,
                    ur_upload_url := upload_url, ur_download_url := download_url\<rparr>, L1))"

definition SendFriendRequest ::
  "('d, 'r, 'n, 'g) logic_env \<Rightarrow> SendFriendReq \<Rightarrow> (SendFriendRes, 'd, 'r, 'n, 'g) handler" where
  "SendFriendRequest env req =
     db_do (CreateFriendRequest (le_pg env) (fq_from_uid req) (fq_to_uid req) (fq_reason req) 0)
       (\<lambda>(ok, req_id).
         if ok then done_with (SendFriendRes_default\<lparr>fs_err_code := ERR_SUCCESS, fs_req_id := req_id\<rparr>)
         else done_with (SendFriendRes_default\<lparr>fs_err_code := ERR_SYS_ERROR,
                           fs_err_msg := ''Failed to create friend request''\<rparr>))"

definition RespondFriendRequest ::
  "('d, 'r, 'n, 'g) logic_env \<Rightarrow> RespondFriendReq \<Rightarrow> (RespondFriendRes, 'd, 'r, 'n, 'g) handler" where
  "RespondFriendRequest env req =
     (if pq_accept req then
        db_do (AcceptFriendRequest (le_pg env) (pq_req_id req)) (\<lambda>ok.
          if ok then done_with (RespondFriendRes_default\<lparr>pr_err_code := ERR_SUCCESS\<rparr>)
          else done_with (RespondFriendRes_default\<lparr>pr_err_code := ERR_SYS_ERROR,
                            pr_err_msg := ''Failed to accept friend request''\<rparr>))
      else
        db_do (Execute (le_pg env) (sql_RejectRequest (pq_req_id req))) (\<lambda>ok.
          done_with (RespondFriendRes_default\<lparr>pr_err_code := ERR_SUCCESS\<rparr>)))"

definition ListFriendsHandler ::
  "('d, 'r, 'n, 'g) logic_env \<Rightarrow> FriendListReq \<Rightarrow> (FriendListRes, 'd, 'r, 'n, 'g) handler" where
  "ListFriendsHandler env request =
     db_do (ListFriends (le_pg env) (gq_uid request)) (\<lambda>list.
       done_with (FriendListRes_default\<lparr>gr_err_code := ERR_SUCCESS, gr_friend_uids := list\<rparr>))"

definition GetFriendRequests ::
  "('d, 'r, 'n, 'g) logic_env \<Rightarrow> GetFriendReqsReq \<Rightarrow> (GetFriendReqsRes, 'd, 'r, 'n, 'g) handler" where
  "GetFriendRequests env request =
     db_do (GetFriendRequestsForUser (le_pg env) (jq_uid request)) (\<lambda>reqs.
       done_with (GetFriendReqsRes_default\<lparr>jr_err_code := ERR_SUCCESS, jr_requests := reqs\<rparr>))"

section \<open>The process\<close>

definition GetEnvOrDefault :: "(string \<Rightarrow> string option) \<Rightarrow> string \<Rightarrow> string \<Rightarrow> string" where
  "GetEnvOrDefault getenv key default_value =
     (case getenv key of None \<Rightarrow> default_value | Some v \<Rightarrow> if v = [] then default_value else v)"

definition db_conn_str :: "PostgresConfig \<Rightarrow> string" where
  "db_conn_str db_cfg =
     ''dbname='' @ pc_dbname db_cfg @ '' user='' @ pc_user db_cfg @ '' password='' @ pc_password db_cfg @
     '' hostaddr='' @ pc_host db_cfg @ '' port='' @ to_string (pc_port db_cfg)"

text \<open>
  How the start of the process ends: with an exit code, with an exception (a port of an
  endpoint that is not a number) that ends the process, or with a service that is handed to gRPC
  to listen at the address.
\<close>

datatype ('d, 'r, 'n) server_start =
    Exit int
  | Terminate exn
  | Serving string "(redis_pool \<times> 'r)" "(db_pool \<times> 'd)" S3Client 'n

definition configured_s3 :: "(string \<Rightarrow> string option) \<Rightarrow> ServerConfig \<Rightarrow> S3Client throws" where
  "configured_s3 getenv cfg =
     S3Client_new (sc_master_endpoint (sv_seaweedfs cfg)) (sc_public_endpoint (sv_seaweedfs cfg))
       (GetEnvOrDefault getenv ''SEAWEED_BUCKET'' ''letschat'')
       (GetEnvOrDefault getenv ''SEAWEED_ACCESS_KEY'' [])
       (GetEnvOrDefault getenv ''SEAWEED_SECRET_KEY'' [])"

text \<open>
  The settings are loaded before anything else, and the storage is checked before the pools
  connect. The outer \<open>None\<close> is a connectivity check that never returns.
\<close>

definition start_service ::
  "'d pg_env \<Rightarrow> 'r redis_env \<Rightarrow> 'n net_env \<Rightarrow> (string \<Rightarrow> string option) \<Rightarrow> ServerConfig \<Rightarrow>
   'd \<Rightarrow> 'r \<Rightarrow> 'n \<Rightarrow> ('d, 'r, 'n) server_start option" where
  "start_service pg re ne getenv cfg d r n =
     (case configured_s3 getenv cfg of
        Inl e \<Rightarrow> Some (Terminate e)
      | Inr s3 \<Rightarrow>
          (case CheckConnectivity ne s3 n of
             None \<Rightarrow> None
           | Some (False, n') \<Rightarrow> Some (Exit 42)
           | Some (True, n') \<Rightarrow>
               Some (Serving (gc_logic_server_listen_addr (sv_grpc cfg))
                 (RedisPool_new re (rc_host (sv_redis cfg)) (rc_port (sv_redis cfg))
                    (rc_password (sv_redis cfg)) 2 50 r)
                 (DbPool_new pg (db_conn_str (sv_postgres cfg)) 2 20 d) s3 n')))"

definition RunServer ::
  "'y yaml \<Rightarrow> 'd pg_env \<Rightarrow> 'r redis_env \<Rightarrow> 'n net_env \<Rightarrow> (string \<Rightarrow> string option) \<Rightarrow> ServerConfig \<Rightarrow>
   'd \<Rightarrow> 'r \<Rightarrow> 'n \<Rightarrow> ('d, 'r, 'n) server_start option" where
  "RunServer y pg re ne getenv cfg0 d r n =
     (case Load y ''../config.yaml'' cfg0 of
        (False, cfg) \<Rightarrow> Some (Exit 1)
      | (True, cfg) \<Rightarrow> start_service pg re ne getenv cfg d r n)"

end
