(* ===== verification/Logic_Spec.thy ===== *)
theory Logic_Spec
  imports Logic_Server
begin

text \<open>
  What the handlers of the logic server guarantee, over the contracts of the database
  (\<open>pg_conforms\<close>) and of Redis (\<open>redis_conforms\<close>). \<open>run_request\<close> gathers the handlers into one
  step, so that what holds after any sequence of requests can be stated.
\<close>

section \<open>Requests as steps\<close>

datatype logic_req =
    Rpc_Login LoginReq
  | Rpc_SendMsg MsgSendReq
  | Rpc_SyncMsg SyncMsgReq
  | Rpc_RegisterUser RegisterReq
  | Rpc_HttpLogin HttpLoginReq
  | Rpc_GetUploadUrl GetUploadUrlReq
  | Rpc_SendFriendRequest SendFriendReq
  | Rpc_RespondFriendRequest RespondFriendReq
  | Rpc_ListFriends FriendListReq
  | Rpc_GetFriendRequests GetFriendReqsReq

text \<open>The state after a request; \<open>None\<close> when the handler does not return.\<close>

fun run_request ::
  "('d, 'r, 'n, 'g) logic_env \<Rightarrow> logic_req \<Rightarrow> ('d, 'r, 'n, 'g) logic \<Rightarrow> ('d, 'r, 'n, 'g) logic option" where
  "run_request env (Rpc_Login q) L = Some (snd (Login env q L))"
| "run_request env (Rpc_SendMsg q) L = Some (snd (SendMsg env q L))"
| "run_request env (Rpc_SyncMsg q) L = Some (snd (SyncMsg env q L))"
| "run_request env (Rpc_RegisterUser q) L = Some (snd (RegisterUser env q L))"
| "run_request env (Rpc_HttpLogin q) L = Some (snd (HttpLogin env q L))"
| "run_request env (Rpc_GetUploadUrl q) L = map_option snd (GetUploadUrl env q L)"
| "run_request env (Rpc_SendFriendRequest q) L = Some (snd (SendFriendRequest env q L))"
| "run_request env (Rpc_RespondFriendRequest q) L = Some (snd (RespondFriendRequest env q L))"
| "run_request env (Rpc_ListFriends q) L = Some (snd (ListFriendsHandler env q L))"
| "run_request env (Rpc_GetFriendRequests q) L = Some (snd (GetFriendRequests env q L))"

text \<open>
  The states of a server that handles one request after the other while the clocks and the
  other servers (\<open>outside\<close>) go on.
\<close>

inductive logic_reach ::
  "('d, 'r, 'n, 'g) logic_env \<Rightarrow> ('d, 'r, 'n, 'g) logic \<Rightarrow> ('d, 'r, 'n, 'g) logic \<Rightarrow> bool"
  for env L0 where
  start: "logic_reach env L0 L0"
| request: "logic_reach env L0 L \<Longrightarrow> run_request env q L = Some L' \<Longrightarrow> logic_reach env L0 L'"
| outside: "logic_reach env L0 L \<Longrightarrow> logic_reach env L0 (L\<lparr>lg_world := g\<rparr>)"

section \<open>Frames of the combinators\<close>

lemma db_do_cases:
  obtains (Thrown) e db where "call (lg_db L) = (Inl e, db)" "db_do call k L = (Inl e, L\<lparr>lg_db := db\<rparr>)"
    | (Value) x db where "call (lg_db L) = (Inr x, db)" "db_do call k L = k x (L\<lparr>lg_db := db\<rparr>)"
proof -
  obtain r db where "call (lg_db L) = (r, db)" by (metis surj_pair)
  then show ?thesis using that by (cases r) (simp_all add: db_do_def)
qed

lemma redis_do_cases:
  obtains x rs where "call (lg_redis L) = (x, rs)" "redis_do call k L = k x (L\<lparr>lg_redis := rs\<rparr>)"
proof -
  obtain x rs where "call (lg_redis L) = (x, rs)" by (metis surj_pair)
  then show ?thesis using that by simp
qed

text \<open>An observation of the state that database calls leave alone.\<close>

lemma db_do_frame:
  assumes "\<And>db. P (L\<lparr>lg_db := db\<rparr>) = X" and "\<And>x db. P (snd (k x (L\<lparr>lg_db := db\<rparr>))) = X"
  shows "P (snd (db_do call k L)) = X"
  by (rule db_do_cases [of call L k]) (simp_all add: assms)

section \<open>The routing keys\<close>

text \<open>No key that the server writes is a key that it looks a route up with.\<close>

lemma colon_not_in_to_string: "CHR '':'' \<notin> set (to_string w)"
  by (auto dest!: to_string_chars simp: is_digit_def)

lemma to_string_not_colon: "to_string w = CHR '':'' # s \<longleftrightarrow> False"
  using colon_not_in_to_string [of w] by auto

lemma session_key_not_route_key: "session_key u \<noteq> route_key v"
  by (simp add: session_key_def route_key_def to_string_not_colon)

lemma token_key_not_route_key: "token_key u \<noteq> route_key v"
  by (simp add: token_key_def route_key_def)

lemma key_no_NUL [simp]:
  "c_str (session_key u) = session_key u" "c_str (token_key u) = token_key u"
  "c_str (route_key u) = route_key u"
  using to_string_no_NUL [of u]
  by (auto intro!: c_str_id simp: session_key_def token_key_def route_key_def NUL_def)

definition routes :: "('r \<Rightarrow> string \<rightharpoonup> string) \<Rightarrow> ('d, 'r, 'n, 'g) logic \<Rightarrow> i64 \<Rightarrow> string option" where
  "routes rdata L uid = rdata (snd (lg_redis L)) (route_key uid)"

lemma routes_update [simp]:
  "routes rdata (L\<lparr>lg_db := db\<rparr>) = routes rdata L" "routes rdata (L\<lparr>lg_world := g\<rparr>) = routes rdata L"
  "routes rdata (L\<lparr>lg_s3 := s3\<rparr>) = routes rdata L" "routes rdata (L\<lparr>lg_net := n\<rparr>) = routes rdata L"
  by (simp_all add: routes_def fun_eq_iff)

lemma routes_Set:
  assumes "redis_conforms re rdata" and "Redis_Set re key v (lg_redis L) = (b, rs)"
    and "\<And>u. c_str key \<noteq> route_key u"
  shows "routes rdata (L\<lparr>lg_redis := rs\<rparr>) = routes rdata L"
  using Redis_Set_data [OF assms(1,2)] assms(3) [symmetric]
  by (auto simp: routes_def fun_eq_iff split: if_splits)

lemma routes_Get:
  assumes "redis_conforms re rdata" and "Redis_Get re key (lg_redis L) = (v, rs)"
  shows "routes rdata (L\<lparr>lg_redis := rs\<rparr>) = routes rdata L"
  using Redis_Get_data [OF assms] by (simp add: routes_def fun_eq_iff)

lemma routes_redis_Set:
  assumes "redis_conforms re rdata" and "\<And>u. c_str key \<noteq> route_key u"
    and "routes rdata L = X" and "\<And>x L'. routes rdata L' = X \<Longrightarrow> routes rdata (snd (k x L')) = X"
  shows "routes rdata (snd (redis_do (Redis_Set re key v) k L)) = X"
  by (rule redis_do_cases [of "Redis_Set re key v" L k])
    (simp add: assms(3,4) routes_Set [OF assms(1) _ assms(2)])

lemma routes_redis_Get:
  assumes "redis_conforms re rdata"
    and "routes rdata L = X" and "\<And>x L'. routes rdata L' = X \<Longrightarrow> routes rdata (snd (k x L')) = X"
  shows "routes rdata (snd (redis_do (Redis_Get re key) k L)) = X"
  by (rule redis_do_cases [of "Redis_Get re key" L k])
    (simp add: assms(2,3) routes_Get [OF assms(1)])

lemma routes_db_do:
  assumes "routes rdata L = X" and "\<And>x L'. routes rdata L' = X \<Longrightarrow> routes rdata (snd (k x L')) = X"
  shows "routes rdata (snd (db_do call k L)) = X"
  by (rule db_do_frame) (simp_all add: assms)

lemma routes_if:
  "(P \<Longrightarrow> routes rdata (snd (f L)) = X) \<Longrightarrow> (\<not> P \<Longrightarrow> routes rdata (snd (g L)) = X) \<Longrightarrow>
   routes rdata (snd ((if P then f else g) L)) = X"
  by simp

lemma routes_done: "routes rdata L = X \<Longrightarrow> routes rdata (snd (done_with x L)) = X"
  by simp

lemmas routes_intros = routes_db_do routes_if routes_done

lemma routes_Login:
  assumes "redis_conforms (le_redis env) rdata"
  shows "routes rdata (snd (Login env q L)) = routes rdata L"
  unfolding Login_def
  by (intro routes_intros routes_redis_Set [OF assms]) (simp_all add: session_key_not_route_key)

lemma routes_HttpLogin:
  assumes "redis_conforms (le_redis env) rdata"
  shows "routes rdata (snd (HttpLogin env q L)) = routes rdata L"
  unfolding HttpLogin_def case_prod_beta
  by (intro routes_intros routes_redis_Set [OF assms]) (simp_all add: token_key_not_route_key)

lemma routes_route_msg:
  assumes "redis_conforms (le_redis env) rdata" and "routes rdata L = X"
  shows "routes rdata (snd (route_msg env m i L)) = X"
  unfolding route_msg_def
  by (rule routes_redis_Get [OF assms])
    (simp add: push_to_gateway_def Let_def split: option.split)

lemma routes_store_msg:
  assumes "redis_conforms (le_redis env) rdata" and "routes rdata L = X"
  shows "routes rdata (snd (store_msg env m L)) = X"
  unfolding store_msg_def Let_def
  by (rule routes_db_do) (simp_all add: routes_route_msg assms)

lemma routes_SendMsg:
  assumes "redis_conforms (le_redis env) rdata"
  shows "routes rdata (snd (SendMsg env q L)) = routes rdata L"
  unfolding SendMsg_def Let_def
  by (intro routes_intros) (simp_all add: routes_store_msg assms)

lemma routes_others:
  "routes rdata (snd (SyncMsg env q1 L)) = routes rdata L"
  "routes rdata (snd (RegisterUser env q2 L)) = routes rdata L"
  "routes rdata (snd (SendFriendRequest env q3 L)) = routes rdata L"
  "routes rdata (snd (RespondFriendRequest env q4 L)) = routes rdata L"
  "routes rdata (snd (ListFriendsHandler env q5 L)) = routes rdata L"
  "routes rdata (snd (GetFriendRequests env q6 L)) = routes rdata L"
  unfolding SyncMsg_def RegisterUser_def SendFriendRequest_def RespondFriendRequest_def
    ListFriendsHandler_def GetFriendRequests_def case_prod_beta
  by (rule routes_intros refl | assumption)+

lemma routes_run_request:
  assumes "redis_conforms (le_redis env) rdata" and "run_request env q L = Some L'"
  shows "routes rdata L' = routes rdata L"
  using assms(2)
  by (cases q) (auto simp: routes_others routes_Login [OF assms(1)] routes_HttpLogin [OF assms(1)]
      routes_SendMsg [OF assms(1)] GetUploadUrl_def Let_def split: option.splits prod.splits if_splits)

section \<open>No message is ever pushed\<close>

lemma routes_reach:
  assumes "redis_conforms (le_redis env) rdata" and "logic_reach env L0 L"
  shows "routes rdata L = routes rdata L0"
  using assms(2) by induction (simp_all add: routes_run_request [OF assms(1)])

lemma route_msg_world:
  assumes "redis_conforms (le_redis env) rdata" and "routes rdata L (cm_to_uid m) = None"
  shows "lg_world (snd (route_msg env m i L)) = lg_world L"
proof -
  obtain v rs where r: "Redis_Get (le_redis env) (route_key (cm_to_uid m)) (lg_redis L) = (v, rs)"
    by (metis surj_pair)
  have "v = None"
    using Redis_Get_data [OF assms(1) r] assms(2) by (cases v) (auto simp: routes_def)
  with r show ?thesis by (simp add: route_msg_def Let_def)
qed

lemma store_msg_world:
  assumes "redis_conforms (le_redis env) rdata" and "routes rdata L (cm_to_uid m) = None"
  shows "lg_world (snd (store_msg env m L)) = lg_world L"
  unfolding store_msg_def Let_def
  by (rule db_do_frame [where P = lg_world]) (simp_all add: route_msg_world [OF assms(1)] assms(2))

lemma SendMsg_world:
  assumes "redis_conforms (le_redis env) rdata" and "routes rdata L (cm_to_uid (sq_msg q)) = None"
  shows "lg_world (snd (SendMsg env q L)) = lg_world L"
  unfolding SendMsg_def Let_def
  by (rule db_do_frame [where P = lg_world]) (simp_all add: store_msg_world [OF assms(1)] assms(2))

text \<open>
  C13: the logic server never pushes a message. \<open>Login\<close> stores the gateway of a user under
  \<open>IM:USER:SESS\<close> followed by the number, \<open>SendMsg\<close> looks it up under \<open>IM:USER:SESS:\<close>
  followed by the number, and no handler writes a key of the second kind: starting from a Redis
  server without such keys, after any sequence of requests, logins included, \<open>SendMsg\<close> leaves
  the outside world as it was, so that \<open>PushMsg\<close> of the gateways is never called.
\<close>

theorem SendMsg_never_pushes:
  assumes "redis_conforms (le_redis env) rdata" and "\<forall>uid. routes rdata L0 uid = None"
    and "logic_reach env L0 L"
  shows "lg_world (snd (SendMsg env q L)) = lg_world L"
  by (rule SendMsg_world [OF assms(1)]) (simp add: routes_reach [OF assms(1,3)] assms(2))

section \<open>An example server\<close>

text \<open>
  A server on the in-memory database and Redis; the outside world counts the pushes that the
  gateways receive.
\<close>

definition mem_env :: "(tables, string \<rightharpoonup> string, string list, nat) logic_env" where
  "mem_env =
     \<lparr>le_pg = mem_pg, le_redis = mem_redis, le_net = chunk_env, le_now = (\<lambda>g. 1700000000000000000),
      le_time = (\<lambda>g. 1700000000), le_endian = Little, le_serialize = (\<lambda>m. map of_char (cm_content (mp_msg m))),
      le_push = (\<lambda>addr r g. (Some PushMsgRes_default, Suc g))\<rparr>"

definition mem_server :: "tables \<Rightarrow> (tables, string \<rightharpoonup> string, string list, nat) logic" where
  "mem_server t =
     \<lparr>lg_db = (mem_pool, t), lg_redis = (example_redis_pool, Map.empty), lg_s3 = example_s3,
      lg_net = [], lg_world = 0\<rparr>"

lemma mem_env_simps [simp]:
  "le_pg mem_env = mem_pg" "le_redis mem_env = mem_redis" "le_net mem_env = chunk_env"
  "lg_db (mem_server t) = (mem_pool, t)" "lg_redis (mem_server t) = (example_redis_pool, Map.empty)"
  "lg_world (mem_server t) = 0" "lg_s3 (mem_server t) = example_s3" "lg_net (mem_server t) = []"
  by (simp_all add: mem_env_def mem_server_def)

theorem SendMsg_never_pushes_witness:
  "\<exists>L. L = snd (Login mem_env \<lparr>lq_uid = 2, lq_token = ''pw2'', lq_device_id = [], lq_last_msg_id = 0\<rparr>
       (mem_server two_users)) \<and>
     lg_world (snd (SendMsg mem_env \<lparr>sq_msg = ChatMsg_default\<lparr>cm_from_uid := 1, cm_to_uid := 2\<rparr>\<rparr> L)) = lg_world L"
proof -
  let ?q = "\<lparr>lq_uid = 2, lq_token = ''pw2'', lq_device_id = [], lq_last_msg_id = 0\<rparr>"
  have "logic_reach mem_env (mem_server two_users) (snd (Login mem_env ?q (mem_server two_users)))"
    by (rule logic_reach.request [OF logic_reach.start, where q = "Rpc_Login ?q"]) simp
  from SendMsg_never_pushes [where rdata = "\<lambda>r. r", OF _ _ this] show ?thesis
    by (simp add: mem_redis_conforms routes_def)
qed

section \<open>Login\<close>

text \<open>
  C15: with a running database in which the numbers of the users are unique, \<open>Login\<close> succeeds
  exactly when the token is the stored, non-empty password of the user; otherwise it answers
  \<open>ERR_AUTH_FAIL\<close> and writes no session.
\<close>

theorem Login_authenticates:
  assumes conf: "pg_conforms (le_pg env) data" and up: "db_up (le_pg env) mx (lg_db L)"
    and key: "\<forall>x \<in> set (tb_user (data (snd (lg_db L)))). \<forall>y \<in> set (tb_user (data (snd (lg_db L)))).
      us_id x = us_id y \<longrightarrow> x = y"
  shows "\<exists>reply L'. Login env q L = (Inr reply, L') \<and>
    (if lq_token q \<noteq> [] \<and> (\<exists>x \<in> set (tb_user (data (snd (lg_db L)))).
          us_id x = lq_uid q \<and> us_password x = lq_token q)
     then lr_err_code reply = ERR_SUCCESS \<and> lr_session_id reply = ''sess_'' @ to_string (lq_uid q)
     else lr_err_code reply = ERR_AUTH_FAIL \<and> lr_session_id reply = [] \<and> lg_redis L' = lg_redis L)"
proof -
  let ?users = "tb_user (data (snd (lg_db L)))"
  obtain r db where c: "GetUserPassword (le_pg env) (lq_uid q) (lg_db L) = (r, db)" by (metis surj_pair)
  from spec_read_up [OF GetUserPassword_read [OF conf] up, of "lq_uid q"] c obtain pw where r: "r = Inr pw"
    and pw: "if \<exists>x \<in> set ?users. us_id x = lq_uid q
       then \<exists>x \<in> set ?users. us_id x = lq_uid q \<and> pw = us_password x else pw = []"
    by auto
  have iff: "(pw \<noteq> [] \<and> pw = lq_token q) \<longleftrightarrow>
      (lq_token q \<noteq> [] \<and> (\<exists>x \<in> set ?users. us_id x = lq_uid q \<and> us_password x = lq_token q))"
  proof (cases "\<exists>x \<in> set ?users. us_id x = lq_uid q")
    case True
    with pw obtain y where y: "y \<in> set ?users" "us_id y = lq_uid q" "pw = us_password y" by auto
    then have "x = y" if "x \<in> set ?users" "us_id x = lq_uid q" for x using key that by metis
    with y show ?thesis by metis
  qed (use pw in auto)
  obtain b rs where s: "Redis_Set (le_redis env) (session_key (lq_uid q)) gateway_addr (lg_redis L) = (b, rs)"
    by (metis surj_pair)
  show ?thesis
  proof (cases "pw \<noteq> [] \<and> pw = lq_token q")
    case True
    then have "Login env q L = (Inr (LoginRes_default\<lparr>lr_err_code := ERR_SUCCESS,
        lr_session_id := ''sess_'' @ to_string (lq_uid q)\<rparr>), L\<lparr>lg_db := db, lg_redis := rs\<rparr>)"
      using c r s by (auto simp: Login_def)
    with True iff show ?thesis by simp
  next
    case False
    then have "Login env q L = (Inr (LoginRes_default\<lparr>lr_err_code := ERR_AUTH_FAIL,
        lr_err_msg := ''Invalid token''\<rparr>), L\<lparr>lg_db := db\<rparr>)"
      using c r by (auto simp: Login_def)
    with False iff show ?thesis by (auto simp: LoginRes_default_def)
  qed
qed

theorem Login_authenticates_witness:
  "\<exists>reply L'. Login mem_env \<lparr>lq_uid = 2, lq_token = ''pw2'', lq_device_id = [], lq_last_msg_id = 0\<rparr>
     (mem_server two_users) = (Inr reply, L') \<and> lr_err_code reply = ERR_SUCCESS"
proof -
  let ?q = "\<lparr>lq_uid = 2, lq_token = ''pw2'', lq_device_id = [], lq_last_msg_id = 0\<rparr>"
  have "\<exists>reply L'. Login mem_env ?q (mem_server two_users) = (Inr reply, L') \<and>
    (if lq_token ?q \<noteq> [] \<and> (\<exists>x \<in> set (tb_user (snd (lg_db (mem_server two_users)))).
          us_id x = lq_uid ?q \<and> us_password x = lq_token ?q)
     then lr_err_code reply = ERR_SUCCESS \<and> lr_session_id reply = ''sess_'' @ to_string (lq_uid ?q)
     else lr_err_code reply = ERR_AUTH_FAIL \<and> lr_session_id reply = [] \<and>
       lg_redis L' = lg_redis (mem_server two_users))"
    by (rule Login_authenticates [where data = "\<lambda>t. t" and mx = 20])
      (simp_all add: mem_pg_conforms mem_pg_up two_users_def)
  then show ?thesis by (auto simp: two_users_def)
qed

section \<open>Sending a message\<close>

lemma digits_clean [simp]: "clean (to_string w)"
  using to_string_no_NUL [of w]
  by (auto simp: clean_def quote_free_def is_digit_def dest!: to_string_chars)

text \<open>A row for the message has been appended, with this text as its \<open>msg_id\<close>.\<close>

definition msg_stored :: "string \<Rightarrow> ChatMsg \<Rightarrow> tables \<Rightarrow> tables \<Rightarrow> bool" where
  "msg_stored msg_id m t t' \<longleftrightarrow> (\<exists>n now.
     t' = sql_update (InsertMsg msg_id (cm_from_uid m) (cm_to_uid m) (cm_content m) now) n t)"

lemma route_msg_reply:
  "\<exists>reply L'. route_msg env m i L = (Inr reply, L') \<and> sr_err_code reply = ERR_SUCCESS \<and>
    sr_msg_id reply = i \<and> lg_db L' = lg_db L"
  by (rule redis_do_cases [of "Redis_Get (le_redis env) (route_key (cm_to_uid m))" L])
    (auto simp: route_msg_def Let_def push_to_gateway_def split: option.splits)

lemma store_msg_reply:
  assumes conf: "pg_conforms (le_pg env) data" and "clean (cm_content m)"
  shows "\<exists>reply L'. store_msg env m L = (Inr reply, L') \<and> sr_err_code reply = ERR_SUCCESS \<and>
    sr_msg_id reply = le_now env (lg_world L) \<and>
    (data (snd (lg_db L')) = data (snd (lg_db L)) \<or>
     msg_stored (to_string (le_now env (lg_world L))) m (data (snd (lg_db L))) (data (snd (lg_db L'))))"
proof -
  let ?i = "le_now env (lg_world L)"
  obtain r db where s: "SaveMessage (le_pg env) (to_string ?i) (cm_from_uid m) (cm_to_uid m)
      (cm_content m) (lg_db L) = (r, db)" by (metis surj_pair)
  from SaveMessage_spec [OF conf digits_clean assms(2) s] obtain b where r: "r = Inr b"
    and d: "data (snd db) = data (snd (lg_db L)) \<or>
      msg_stored (to_string ?i) m (data (snd (lg_db L))) (data (snd db))"
    unfolding msg_stored_def by (metis (no_types, lifting))
  obtain reply L' where "route_msg env m ?i (L\<lparr>lg_db := db\<rparr>) = (Inr reply, L')"
    "sr_err_code reply = ERR_SUCCESS" "sr_msg_id reply = ?i" "lg_db L' = db"
    using route_msg_reply [of env m ?i "L\<lparr>lg_db := db\<rparr>"] by auto
  with s r d show ?thesis by (simp add: store_msg_def Let_def)
qed

text \<open>
  C14: with a running database, \<open>SendMsg\<close> between users who are not friends is refused and has
  no effect on the stored messages, on Redis or on any gateway. Between friends the reply is
  \<open>ERR_SUCCESS\<close> with a message number in either case, whether the message has been stored
  under that number or the insert failed and the message is lost.
\<close>

theorem SendMsg_refused_or_acknowledged:
  assumes conf: "pg_conforms (le_pg env) data" and up: "db_up (le_pg env) mx (lg_db L)"
    and "clean (cm_content (sq_msg q))"
  shows "\<exists>reply L'. SendMsg env q L = (Inr reply, L') \<and>
    (if friend_of (data (snd (lg_db L))) (cm_from_uid (sq_msg q)) (cm_to_uid (sq_msg q))
     then sr_err_code reply = ERR_SUCCESS \<and> sr_msg_id reply = le_now env (lg_world L) \<and>
       (data (snd (lg_db L')) = data (snd (lg_db L)) \<or>
        msg_stored (to_string (sr_msg_id reply)) (sq_msg q) (data (snd (lg_db L))) (data (snd (lg_db L'))))
     else sr_err_code reply = ERR_NOT_FRIEND \<and> data (snd (lg_db L')) = data (snd (lg_db L)) \<and>
       lg_redis L' = lg_redis L \<and> lg_world L' = lg_world L)"
proof -
  let ?m = "sq_msg q"
  obtain r db where c: "AreFriends (le_pg env) (cm_from_uid ?m) (cm_to_uid ?m) (lg_db L) = (r, db)"
    by (metis surj_pair)
  note spec = AreFriends_read [OF conf, of "lg_db L" "cm_from_uid ?m" "cm_to_uid ?m"]
  have d: "data (snd db) = data (snd (lg_db L))"
    using spec_read_data [OF spec] c by simp
  have r: "r = Inr (friend_of (data (snd (lg_db L))) (cm_from_uid ?m) (cm_to_uid ?m))"
    using spec_read_up [OF spec up] c by auto
  show ?thesis
  proof (cases "friend_of (data (snd (lg_db L))) (cm_from_uid ?m) (cm_to_uid ?m)")
    case True
    then have "SendMsg env q L = store_msg env ?m (L\<lparr>lg_db := db\<rparr>)"
      using c r by (simp add: SendMsg_def Let_def)
    with store_msg_reply [OF conf assms(3), of "L\<lparr>lg_db := db\<rparr>"] True d show ?thesis by auto
  next
    case False
    then show ?thesis using c r d by (simp add: SendMsg_def Let_def)
  qed
qed

text \<open>Users 1 and 2 as friends.\<close>

definition two_friends :: tables where
  "two_friends = add_friend 2 1 9 (add_friend 1 2 9 two_users)"

theorem SendMsg_refused_or_acknowledged_witness:
  "\<exists>reply L'. SendMsg mem_env \<lparr>sq_msg = ChatMsg_default\<lparr>cm_from_uid := 1, cm_to_uid := 2\<rparr>\<rparr>
     (mem_server two_friends) = (Inr reply, L') \<and> sr_err_code reply = ERR_SUCCESS"
proof -
  let ?q = "\<lparr>sq_msg = ChatMsg_default\<lparr>cm_from_uid := 1, cm_to_uid := 2\<rparr>\<rparr>"
  have "friend_of two_friends 1 2" by (simp add: two_friends_def)
  moreover have "clean (cm_content (sq_msg ?q))"
    by (simp add: ChatMsg_default_def clean_def quote_free_def)
  moreover have "pg_conforms (le_pg mem_env) (\<lambda>t. t)" by (simp add: mem_pg_conforms)
  moreover have "db_up (le_pg mem_env) 20 (lg_db (mem_server two_friends))" by (simp add: mem_pg_up)
  ultimately show ?thesis
    using SendMsg_refused_or_acknowledged [of mem_env "\<lambda>t. t" 20 "mem_server two_friends" ?q] by auto
qed

section \<open>Friend requests\<close>

text \<open>
  C16: with a running database, accepting a request succeeds exactly when it is open, then the
  two users are friends and the request is closed; but declining always answers
  \<open>ERR_SUCCESS\<close>: also for a request that does not exist, and for one that has been accepted
  before, which is then marked as declined while the two users stay friends.
\<close>

theorem RespondFriendRequest_effect:
  assumes conf: "pg_conforms (le_pg env) data" and up: "db_up (le_pg env) mx (lg_db L)"
  shows "\<exists>reply L'. RespondFriendRequest env q L = (Inr reply, L') \<and>
    (if pq_accept q
     then if open_request (pq_req_id q) (data (snd (lg_db L))) \<noteq> []
          then pr_err_code reply = ERR_SUCCESS \<and>
            accepted (pq_req_id q) True (data (snd (lg_db L))) (data (snd (lg_db L')))
          else pr_err_code reply = ERR_SYS_ERROR \<and> data (snd (lg_db L')) = data (snd (lg_db L))
     else pr_err_code reply = ERR_SUCCESS \<and>
       data (snd (lg_db L')) = set_status (pq_req_id q) 2 (data (snd (lg_db L))) \<and>
       friend_of (data (snd (lg_db L'))) = friend_of (data (snd (lg_db L))))"
proof (cases "pq_accept q")
  case True
  obtain r db where c: "AcceptFriendRequest (le_pg env) (pq_req_id q) (lg_db L) = (r, db)"
    by (metis surj_pair)
  from AcceptFriendRequest_spec [OF conf c] up obtain b where r: "r = Inr b"
    and b: "b \<longleftrightarrow> open_request (pq_req_id q) (data (snd (lg_db L))) \<noteq> []"
    and yes: "b \<longrightarrow> accepted (pq_req_id q) True (data (snd (lg_db L))) (data (snd db))"
    and no: "\<not> b \<longrightarrow> data (snd db) = data (snd (lg_db L))"
    by (metis (full_types))
  then show ?thesis using c True
    by (cases b) (auto simp: RespondFriendRequest_def)
next
  case False
  obtain r db where c: "Execute (le_pg env) (sql_RejectRequest (pq_req_id q)) (lg_db L) = (r, db)"
    by (metis surj_pair)
  from Execute_reject_spec [OF conf c] up have "r = Inr True"
    and "data (snd db) = set_status (pq_req_id q) 2 (data (snd (lg_db L)))" by auto
  then show ?thesis using c False by (simp add: RespondFriendRequest_def)
qed

theorem RespondFriendRequest_effect_witness:
  "\<exists>reply L'. RespondFriendRequest mem_env \<lparr>pq_req_id = 99, pq_accept = False\<rparr> (mem_server two_friends) =
     (Inr reply, L') \<and> pr_err_code reply = ERR_SUCCESS \<and> friend_of (snd (lg_db L')) 1 2"
proof -
  have "friend_of two_friends 1 2" by (simp add: two_friends_def)
  with RespondFriendRequest_effect [where env = mem_env and data = "\<lambda>t. t" and mx = 20
      and L = "mem_server two_friends" and q = "\<lparr>pq_req_id = 99, pq_accept = False\<rparr>"]
  show ?thesis by (auto simp: mem_pg_conforms mem_pg_up)
qed

section \<open>Accounts\<close>

lemma HttpLogin_reply:
  assumes "fst (CheckUserByEmail (le_pg env) (hq_email q) (hq_password q) HttpLoginRes_default (lg_db L)) =
    Inr (ok, info)"
  shows "\<exists>L'. HttpLogin env q L = (Inr (if ok then info\<lparr>hr_err_code := 0\<rparr>
      else info\<lparr>hr_err_code := 1, hr_err_msg := ''Invaild email or passwrod''\<rparr>), L')"
proof -
  obtain db where c: "CheckUserByEmail (le_pg env) (hq_email q) (hq_password q) HttpLoginRes_default (lg_db L) =
      (Inr (ok, info), db)"
    using assms by (metis eq_fst_iff)
  show ?thesis
    by (rule redis_do_cases [of "Redis_Set (le_redis env) (token_key (hr_uid info)) (hq_password q)"
          "L\<lparr>lg_db := db\<rparr>"])
      (auto simp: HttpLogin_def c)
qed

lemma registered_login:
  assumes conf: "pg_conforms (le_pg env) data" and up: "db_up (le_pg env) mx (lg_db L)"
    and "clean (rq_nickname q)" and "clean (rq_password q)" and "clean (rq_email q)"
    and new: "\<forall>x \<in> set (tb_user (data (snd (lg_db L)))). us_email x \<noteq> rq_email q"
  shows "\<exists>reply L'. RegisterUser env q L = (Inr reply, L') \<and>
    (rr_err_code reply = 1 \<and> data (snd (lg_db L')) = data (snd (lg_db L)) \<or>
     rr_err_code reply = 0 \<and> 0 <s rr_uid reply \<and>
     (\<exists>L''. HttpLogin env \<lparr>hq_email = rq_email q, hq_password = pw\<rparr> L' = (Inr
       (if pw = rq_password q
        then HttpLoginRes_default\<lparr>hr_uid := rr_uid reply, hr_nickname := rq_nickname q, hr_token := rq_password q\<rparr>
        else HttpLoginRes_default\<lparr>hr_err_code := 1, hr_err_msg := ''Invaild email or passwrod''\<rparr>), L'')))"
proof -
  obtain r db where c: "CreateUser (le_pg env) (rq_nickname q) (rq_password q) (rq_email q) (lg_db L) = (r, db)"
    by (metis surj_pair)
  from created_login [OF conf up assms(3-5) new c, where pw = pw and info = HttpLoginRes_default]
  consider "r = Inr (-1)" "data (snd db) = data (snd (lg_db L))"
    | uid where "r = Inr uid" "0 <s uid" "fst (CheckUserByEmail (le_pg env) (rq_email q) pw HttpLoginRes_default db) =
        Inr (if pw = rq_password q
          then (True, HttpLoginRes_default\<lparr>hr_uid := uid, hr_nickname := rq_nickname q, hr_token := rq_password q\<rparr>)
          else (False, HttpLoginRes_default))"
    by blast
  then show ?thesis
  proof cases
    case 1
    with c show ?thesis by (simp add: RegisterUser_def)
  next
    case (2 uid)
    have reg: "RegisterUser env q L = (Inr (RegisterRes_default\<lparr>rr_err_code := 0, rr_uid := uid\<rparr>), L\<lparr>lg_db := db\<rparr>)"
      using c 2 by (simp add: RegisterUser_def)
    show ?thesis
      using HttpLogin_reply [of env "\<lparr>hq_email = rq_email q, hq_password = pw\<rparr>" "L\<lparr>lg_db := db\<rparr>"] 2(2,3) reg
      by (auto simp: HttpLoginRes_default_def split: if_splits)
  qed
qed

text \<open>
  With a running database, registering with an e-mail that is not in use answers either
  an error and has changed nothing, or the number of the new user; then the login over HTTP
  with that e-mail and the same password answers this number, the nickname and, as the token,
  the password itself, and with any other password it answers the error code 1 and the number 0.
\<close>

theorem register_then_login:
  assumes conf: "pg_conforms (le_pg env) data" and up: "db_up (le_pg env) mx (lg_db L)"
    and "clean (rq_nickname q)" and "clean (rq_password q)" and "clean (rq_email q)"
    and new: "\<forall>x \<in> set (tb_user (data (snd (lg_db L)))). us_email x \<noteq> rq_email q"
  shows "\<exists>reply L'. RegisterUser env q L = (Inr reply, L') \<and>
    (rr_err_code reply = 1 \<and> data (snd (lg_db L')) = data (snd (lg_db L)) \<or>
     rr_err_code reply = 0 \<and> 0 <s rr_uid reply \<and>
     (\<exists>L''. HttpLogin env \<lparr>hq_email = rq_email q, hq_password = pw\<rparr> L' = (Inr
       (if pw = rq_password q
        then HttpLoginRes_default\<lparr>hr_uid := rr_uid reply, hr_nickname := rq_nickname q, hr_token := rq_password q\<rparr>
        else HttpLoginRes_default\<lparr>hr_err_code := 1, hr_err_msg := ''Invaild email or passwrod''\<rparr>), L'')))"
  by (rule registered_login [OF assms])

theorem register_then_login_witness:
  "\<exists>reply L'. RegisterUser mem_env \<lparr>rq_email = ''c@x'', rq_nickname = ''cat'', rq_password = ''pw''\<rparr>
     (mem_server two_users) = (Inr reply, L') \<and>
     (rr_err_code reply = 1 \<or> (\<exists>L''. HttpLogin mem_env \<lparr>hq_email = ''c@x'', hq_password = ''pw''\<rparr> L' =
        (Inr (HttpLoginRes_default\<lparr>hr_uid := rr_uid reply, hr_nickname := ''cat'', hr_token := ''pw''\<rparr>), L'')))"
proof -
  let ?q = "\<lparr>rq_email = ''c@x'', rq_nickname = ''cat'', rq_password = ''pw''\<rparr>"
  have "clean (rq_nickname ?q)" "clean (rq_password ?q)" "clean (rq_email ?q)"
    and "\<forall>x \<in> set (tb_user (snd (lg_db (mem_server two_users)))). us_email x \<noteq> rq_email ?q"
    by (simp_all add: clean_def quote_free_def NUL_def two_users_def)
  with register_then_login [where env = mem_env and data = "\<lambda>t. t" and mx = 20
      and L = "mem_server two_users" and q = ?q and pw = "''pw''"]
  show ?thesis by (auto simp: mem_pg_conforms mem_pg_up)
qed

section \<open>Uploads\<close>

text \<open>
  C35: \<open>GetUploadUrl\<close> either answers \<open>ERR_SYS_ERROR\<close>, no URL, and leaves the storage client as
  it was, or it answers two URLs for the same file of the same collection, the upload URL
  being the download URL with the object name (user, time and file name) appended, and the
  client remembers the file under that name.
\<close>

theorem GetUploadUrl_urls:
  assumes "GetUploadUrl env q L = Some (reply, L')"
  shows "(ur_err_code reply = err_number ERR_SYS_ERROR \<and> ur_upload_url reply = [] \<and>
      ur_download_url reply = [] \<and> lg_s3 L' = lg_s3 L) \<or>
    (ur_err_code reply = err_number ERR_SUCCESS \<and>
      (\<exists>fid. fid \<noteq> [] \<and>
        find_fid (lg_s3 L') (object_key (uq_uid q) (le_now env (lg_world L)) (uq_file_name q)) = Some fid \<and>
        ur_download_url reply = BuildPublicBaseUrl (lg_s3 L) @ ''/'' @ fid @ ''?collection='' @ s3_bucket (lg_s3 L) \<and>
        prefix (ur_download_url reply @ ''&filename='' @
          object_key (uq_uid q) (le_now env (lg_world L)) (uq_file_name q)) (ur_upload_url reply)))"
proof -
  let ?key = "object_key (uq_uid q) (le_now env (lg_world L)) (uq_file_name q)"
  obtain url s3 n where get: "GetPresignedPutUrl (le_net env) ?key (lg_s3 L, lg_net L) = Some (url, s3, n)"
    using assms by (auto simp: GetUploadUrl_def Let_def split: option.splits)
  from get show ?thesis
  proof (rule GetPresignedPutUrl_cases)
    assume "url = []" "s3 = lg_s3 L"
    with assms get show ?thesis
      by (auto simp: GetUploadUrl_def Let_def GetUploadUrlRes_default_def)
  next
    fix fid tail
    assume fid: "fid \<noteq> []" and s3: "s3 = remember_fid ?key fid (lg_s3 L)"
      and url: "url = BuildPublicBaseUrl (lg_s3 L) @ ''/'' @ fid @ ''?collection='' @ s3_bucket (lg_s3 L) @
        ''&filename='' @ ?key @ tail"
    have dl: "GetDownloadUrl ?key s3 =
        BuildPublicBaseUrl (lg_s3 L) @ ''/'' @ fid @ ''?collection='' @ s3_bucket (lg_s3 L)"
      using fid by (simp add: GetDownloadUrl_def s3 fids.look_put_same)
    have "reply = GetUploadUrlRes_default\<lparr>ur_err_code := err_number ERR_SUCCESS,
        ur_upload_url := url, ur_download_url := GetDownloadUrl ?key s3\<rparr>" and "lg_s3 L' = s3"
      using assms get dl url by (auto simp: GetUploadUrl_def Let_def)
    moreover have "find_fid s3 ?key = Some fid" by (simp add: s3 fids.look_put_same)
    ultimately show ?thesis using fid dl url by simp
  qed
qed

theorem GetUploadUrl_urls_witness:
  "\<exists>reply L'. GetUploadUrl mem_env \<lparr>uq_uid = 1, uq_file_name = ''a.png''\<rparr>
      ((mem_server two_users)\<lparr>lg_net := [assign_answer]\<rparr>) = Some (reply, L') \<and>
     ur_err_code reply = err_number ERR_SUCCESS \<and>
     prefix (ur_download_url reply) (ur_upload_url reply)"
proof -
  let ?L = "(mem_server two_users)\<lparr>lg_net := [assign_answer]\<rparr>"
  let ?q = "\<lparr>uq_uid = 1, uq_file_name = ''a.png''\<rparr>"
  let ?key = "object_key 1 1700000000000000000 ''a.png''"
  let ?s3 = "remember_fid ?key ''3,01'' example_s3"
  have fid: "ExtractJsonValue assign_answer ''fid'' = ''3,01''"
    by (simp add: ExtractJsonValue_def QUOTE_def substr_to_def find_from_def)
  have body: "http_body (concat (map c_str [assign_answer])) = assign_answer"
    by (simp add: http_body_def QUOTE_def c_str_def NUL_def CRLF_def)
  obtain url where get: "GetPresignedPutUrl chunk_env ?key (example_s3, [assign_answer]) = Some (url, ?s3, [])"
    and url: "url \<noteq> []"
    using fid body by (auto simp: GetPresignedPutUrl_def chunk_env_HttpGet Let_def)
  have "GetDownloadUrl ?key ?s3 \<noteq> []"
    by (simp add: GetDownloadUrl_def fids.look_put_same)
  moreover have "le_now mem_env 0 = 1700000000000000000" by (simp add: mem_env_def)
  ultimately obtain reply L' where g: "GetUploadUrl mem_env ?q ?L = Some (reply, L')"
    and ok: "ur_err_code reply = err_number ERR_SUCCESS"
    using get url by (simp add: GetUploadUrl_def Let_def)
  from GetUploadUrl_urls [OF g] ok have "prefix (ur_download_url reply) (ur_upload_url reply)"
    by (auto dest: append_prefixD)
  with g ok show ?thesis by blast
qed

section \<open>The start of the process\<close>

text \<open>
  C39: the logic server ends with exit code 1 exactly when its settings cannot be loaded, and
  with 42 only when the storage master of the loaded settings does not answer; when it serves,
  it does so at the configured address, and both pools have at most two connections, all
  idle, counted right, and the limits 50 and 20.
\<close>

theorem RunServer_outcomes:
  assumes "RunServer y pg re ne getenv cfg0 d r n = Some out"
  shows "(out = Exit 1 \<longleftrightarrow> \<not> fst (Load y ''../config.yaml'' cfg0)) \<and>
    (\<forall>code. out = Exit code \<longrightarrow> code = 1 \<or> code = 42 \<and> (\<exists>s3 n'.
       configured_s3 getenv (snd (Load y ''../config.yaml'' cfg0)) = Inr s3 \<and>
       CheckConnectivity ne s3 n = Some (False, n'))) \<and>
    (\<forall>addr rp db s3 n'. out = Serving addr rp db s3 n' \<longrightarrow>
       addr = gc_logic_server_listen_addr (sv_grpc (snd (Load y ''../config.yaml'' cfg0))) \<and>
       configured_s3 getenv (snd (Load y ''../config.yaml'' cfg0)) = Inr s3 \<and>
       CheckConnectivity ne s3 n = Some (True, n') \<and>
       rp_total_created (fst rp) = length (rp_idle (fst rp)) \<and> rp_total_created (fst rp) \<le> 2 \<and>
       rp_max_pool (fst rp) = 50 \<and>
       dp_total_created (fst db) = length (dp_idle (fst db)) \<and> dp_total_created (fst db) \<le> 2 \<and>
       dp_max_pool (fst db) = 20)"
proof -
  obtain ok cfg where load: "Load y ''../config.yaml'' cfg0 = (ok, cfg)" by fastforce
  show ?thesis
  proof (cases ok)
    case False
    with assms load show ?thesis by (auto simp: RunServer_def)
  next
    case True
    then have start: "start_service pg re ne getenv cfg d r n = Some out"
      using assms load by (simp add: RunServer_def)
    show ?thesis
    proof (cases "configured_s3 getenv cfg")
      case (Inl e)
      with start load True show ?thesis by (auto simp: start_service_def)
    next
      case (Inr s3)
      obtain up n' where check: "CheckConnectivity ne s3 n = Some (up, n')"
        using start Inr by (auto simp: start_service_def split: option.splits)
      obtain rp r' where rp: "RedisPool_new re (rc_host (sv_redis cfg)) (rc_port (sv_redis cfg))
          (rc_password (sv_redis cfg)) 2 50 r = (rp, r')" by fastforce
      obtain dp d' where dp: "DbPool_new pg (db_conn_str (sv_postgres cfg)) 2 20 d = (dp, d')" by fastforce
      show ?thesis
        using start Inr check load True rp dp RedisPool_new_start [OF rp] DbPool_new_start [OF dp]
        by (cases up) (auto simp: start_service_def)
    qed
  qed
qed

text \<open>With an empty document every setting has its default, so the storage is the default one.\<close>

definition default_yaml :: "string list yaml" where
  "default_yaml = one_setting_yaml\<lparr>y_LoadFile := (\<lambda>f. Some [])\<rparr>"

lemma default_start:
  "\<exists>rp db s3. RunServer default_yaml counting_pg counting_redis chunk_env (\<lambda>v. None)
      ServerConfig_initial 0 0 [''up''] = Some (Serving ''0.0.0.0:50051'' rp db s3 [])"
proof -
  have load: "Load default_yaml ''../config.yaml'' ServerConfig_initial = (True, configured
      (\<lambda>sec key. if sec = ''redis'' \<and> key = ''host'' then Some ''10.0.0.5'' else None) (\<lambda>sec key. None))"
    by (simp add: Load_def default_yaml_def one_setting_yaml_def load_defs set_string_def set_int_def
        y_at_def configured_def setting_def ServerConfig_initial_def)
  have "ParseEndpoint ''http://127.0.0.1:9333'' ''http'' 9333 =
      Inr \<lparr>ep_scheme = ''http'', ep_host = ''127.0.0.1'', ep_port = 9333\<rparr>"
    "ParseEndpoint ''http://127.0.0.1:8080'' ''http'' 8080 =
      Inr \<lparr>ep_scheme = ''http'', ep_host = ''127.0.0.1'', ep_port = 8080\<rparr>"
    by (simp_all add: ParseEndpoint_def stoi_def strtol10_def is_space_def is_digit_def digits_val_def
        digit_val_def)
  then have s3: "configured_s3 (\<lambda>v. None) cfg = Inr example_s3"
    if "sc_master_endpoint (sv_seaweedfs cfg) = ''http://127.0.0.1:9333''"
      "sc_public_endpoint (sv_seaweedfs cfg) = ''http://127.0.0.1:8080''" for cfg
    using that by (simp add: configured_s3_def S3Client_new_def GetEnvOrDefault_def)
  have up: "CheckConnectivity chunk_env example_s3 [''up''] = Some (True, [])"
    by (simp add: CheckConnectivity_def chunk_env_HttpGet http_body_def c_str_def NUL_def CRLF_def)
  show ?thesis
    by (simp add: RunServer_def load start_service_def s3 up configured_def setting_def)
qed

theorem RunServer_outcomes_witness:
  "\<exists>rp db s3. RunServer default_yaml counting_pg counting_redis chunk_env (\<lambda>v. None)
      ServerConfig_initial 0 0 [''up''] = Some (Serving ''0.0.0.0:50051'' rp db s3 []) \<and>
     dp_total_created (fst db) = length (dp_idle (fst db)) \<and> dp_max_pool (fst db) = 20"
proof -
  obtain rp db s3 where run: "RunServer default_yaml counting_pg counting_redis chunk_env (\<lambda>v. None)
      ServerConfig_initial 0 0 [''up''] = Some (Serving ''0.0.0.0:50051'' rp db s3 [])"
    using default_start by blast
  from RunServer_outcomes [OF run, THEN conjunct2, THEN conjunct2] run show ?thesis by blast
qed

end
