(* ===== verification/Chat_Service.thy ===== *)
theory Chat_Service
  imports Logic_Spec
begin

text \<open>
  The abstract service the logic server implements: a step relation on the five tables, with
  one rule per effect a request may have. The handlers, with the pools, the SQL text and the
  connections below them, refine it (\<open>server_refines_service\<close>), also when the pool is exhausted
  or the database fails; what is invariant under the steps of the service therefore holds in
  every state the server reaches.
\<close>

section \<open>The service\<close>

text \<open>
  What accepting a request may do for the two users of an open request: nothing, one or both
  entries of the friend list, and the new status when both are there.
\<close>

definition accept_outcomes :: "i64 \<Rightarrow> i64 \<Rightarrow> i64 \<Rightarrow> i64 \<Rightarrow> tables \<Rightarrow> tables set" where
  "accept_outcomes req u v now t =
     {t, add_friend u v now t, add_friend v u now t, make_friends u v now t,
      set_status req 1 (make_friends u v now t)}"

inductive service_step :: "logic_req \<Rightarrow> tables \<Rightarrow> tables \<Rightarrow> bool" where
  idle: "service_step q t t"
| send: "friend_of t (cm_from_uid m) (cm_to_uid m) \<Longrightarrow> m = sq_msg q \<Longrightarrow>
    s = InsertMsg i (cm_from_uid m) (cm_to_uid m) (cm_content m) now \<Longrightarrow> sql_fresh s t n \<Longrightarrow>
    service_step (Rpc_SendMsg q) t (sql_update s n t)"
| register: "s = InsertUser (rq_nickname q) (rq_password q) (rq_email q) \<Longrightarrow> sql_fresh s t n \<Longrightarrow>
    service_step (Rpc_RegisterUser q) t (sql_update s n t)"
| ask: "s = InsertRequest (fq_from_uid q) (fq_to_uid q) (fq_reason q) now \<Longrightarrow> sql_fresh s t n \<Longrightarrow>
    service_step (Rpc_SendFriendRequest q) t (sql_update s n t)"
| befriend: "pq_accept q \<Longrightarrow> x \<in> set (open_request (pq_req_id q) t) \<Longrightarrow>
    t' \<in> accept_outcomes (pq_req_id q) (qr_from x) (qr_to x) now t \<Longrightarrow>
    service_step (Rpc_RespondFriendRequest q) t t'"
| decline: "\<not> pq_accept q \<Longrightarrow>
    service_step (Rpc_RespondFriendRequest q) t (set_status (pq_req_id q) 2 t)"

inductive_simps service_step_reads [simp]:
  "service_step (Rpc_Login q1) t t'" "service_step (Rpc_SyncMsg q3) t t'"
  "service_step (Rpc_HttpLogin q5) t t'" "service_step (Rpc_GetUploadUrl q6) t t'"
  "service_step (Rpc_ListFriends q9) t t'" "service_step (Rpc_GetFriendRequests q10) t t'"

text \<open>Requests whose text goes into a statement unharmed.\<close>

fun clean_req :: "logic_req \<Rightarrow> bool" where
  "clean_req (Rpc_SendMsg q) \<longleftrightarrow> clean (cm_content (sq_msg q))"
| "clean_req (Rpc_RegisterUser q) \<longleftrightarrow> clean (rq_nickname q) \<and> clean (rq_password q) \<and> clean (rq_email q)"
| "clean_req (Rpc_HttpLogin q) \<longleftrightarrow> clean (hq_email q)"
| "clean_req (Rpc_SendFriendRequest q) \<longleftrightarrow> clean (fq_reason q)"
| "clean_req _ \<longleftrightarrow> True"

section \<open>Accepting a request on any server\<close>

lemma accept_insert_outcome:
  assumes conf: "pg_conforms env data" and q: "accept_insert env u v c st = (b, st')"
  shows "\<exists>now. data (snd st') \<in> {data (snd st), add_friend u v now (data (snd st)),
      add_friend v u now (data (snd st)), make_friends u v now (data (snd st))} \<and>
    (b \<longrightarrow> data (snd st') = make_friends u v now (data (snd st)))"
proof -
  obtain p d where st: "st = (p, d)" by (cases st)
  let ?now = "pg_time env d"
  have clean: "clean_stmt (InsertFriend u v ?now)" "clean_stmt (InsertFriend v u ?now)" by simp_all
  obtain r1 d1 where x1: "pq_exec env c (stmt_text (InsertFriend u v ?now)) d = (r1, d1)" by fastforce
  obtain r2 d2 where x2: "pq_exec env c (stmt_text (InsertFriend v u ?now)) d1 = (r2, d2)" by fastforce
  have b: "b = (PQresultStatus r1 = PGRES_COMMAND_OK \<and> PQresultStatus r2 = PGRES_COMMAND_OK)"
    and d': "data (snd st') = data d2"
    using q x1 x2 c_str_stmt_text [OF clean(1)] c_str_stmt_text [OF clean(2)]
    by (auto simp: accept_insert_def st Let_def pg_conformsD [OF conf])
  from pg_conforms_exec [OF conf clean(1) x1] pg_conforms_exec [OF conf clean(2) x2] b d'
  show ?thesis
    by (intro exI [of _ ?now]) (auto simp: st make_friends_def dest!: exec_insert_friend)
qed

lemma accept_body_outcome:
  assumes conf: "pg_conforms env data" and q: "accept_body env req c st = (r, st')"
  shows "data (snd st') = data (snd st) \<or> (\<exists>x \<in> set (open_request req (data (snd st))). \<exists>now.
    data (snd st') \<in> accept_outcomes req (qr_from x) (qr_to x) now (data (snd st)))"
proof -
  have clean: "clean_stmt (SelectRequest req)" "clean_stmt (SetAccepted req)" by simp_all
  have find_failed: "accept_find res = Inr None" if "failed res" for res
    using that by (simp add: accept_find_def)
  obtain r1 st1 where a: "with_result env (\<lambda>d. sql_SelectRequest req) accept_find c st = (r1, st1)"
    by (metis surj_pair)
  from with_result_spec [OF conf clean(1) find_failed a [unfolded stmt_text.simps(8) [symmetric]]]
  consider "r1 = Inr None" "data (snd st1) = data (snd st)"
    | x where "x \<in> set (open_request req (data (snd st)))" "r1 = Inr (Some (qr_from x, qr_to x))"
        "data (snd st1) = data (snd st)"
    by (auto dest!: accept_find_row)
  then show ?thesis
  proof cases
    case 1
    with a q show ?thesis by (auto simp: accept_body_def)
  next
    case (2 x)
    obtain ok st2 where b: "accept_insert env (qr_from x) (qr_to x) c st1 = (ok, st2)" by (metis surj_pair)
    obtain now where B: "data (snd st2) \<in> {data (snd st), add_friend (qr_from x) (qr_to x) now (data (snd st)),
        add_friend (qr_to x) (qr_from x) now (data (snd st)), make_friends (qr_from x) (qr_to x) now (data (snd st))}"
      and B': "ok \<longrightarrow> data (snd st2) = make_friends (qr_from x) (qr_to x) now (data (snd st))"
      using accept_insert_outcome [OF conf b] 2(3) by auto
    obtain r3 st3 where u: "with_result env (\<lambda>d. sql_AcceptRequest req) (\<lambda>res. Inr True) c st2 = (r3, st3)"
      by (metis surj_pair)
    from with_result_spec [OF conf clean(2) _ u [unfolded stmt_text.simps(10) [symmetric]], of True]
    have U: "data (snd st3) = data (snd st2) \<or> data (snd st3) = set_status req 1 (data (snd st2))"
      by (auto simp: exec_ok_def)
    have "data (snd st') \<in> accept_outcomes req (qr_from x) (qr_to x) now (data (snd st))"
    proof (cases ok)
      case False
      then have "st' = st2" using a b q 2 by (auto simp: accept_body_def)
      with B show ?thesis by (auto simp: accept_outcomes_def)
    next
      case True
      then have "st' = st3" using a b u q 2 by (auto simp: accept_body_def)
      with U B' True show ?thesis by (auto simp: accept_outcomes_def)
    qed
    with 2(1) show ?thesis by blast
  qed
qed

lemma AcceptFriendRequest_outcome:
  assumes conf: "pg_conforms env data" and q: "AcceptFriendRequest env req st = (r, st')"
  shows "data (snd st') = data (snd st) \<or> (\<exists>x \<in> set (open_request req (data (snd st))). \<exists>now.
    data (snd st') \<in> accept_outcomes req (qr_from x) (qr_to x) now (data (snd st)))"
proof -
  from scope_frame [OF pg_conformsD(1) [OF conf] q [unfolded AcceptFriendRequest_def]]
  consider "data (snd st') = data (snd st)"
    | c st1 st2 where "accept_body env req c st1 = (r, st2)"
      "data (snd st1) = data (snd st)" "data (snd st') = data (snd st2)" by blast
  then show ?thesis
  proof cases
    case 2
    with accept_body_outcome [OF conf 2(1)] show ?thesis by simp
  qed simp
qed

section \<open>The tables behind a handler\<close>

definition tables_of :: "('d \<Rightarrow> tables) \<Rightarrow> ('d, 'r, 'n, 'g) logic \<Rightarrow> tables" where
  "tables_of data L = data (snd (lg_db L))"

lemma tables_of_update [simp]:
  "tables_of data (L\<lparr>lg_redis := rs\<rparr>) = tables_of data L" "tables_of data (L\<lparr>lg_world := g\<rparr>) = tables_of data L"
  "tables_of data (L\<lparr>lg_s3 := s3\<rparr>) = tables_of data L" "tables_of data (L\<lparr>lg_net := n\<rparr>) = tables_of data L"
  "tables_of data (L\<lparr>lg_db := db\<rparr>) = data (snd db)"
  by (simp_all add: tables_of_def)

text \<open>A continuation that leaves the tables alone.\<close>

definition quiet :: "('d \<Rightarrow> tables) \<Rightarrow> ('a, 'd, 'r, 'n, 'g) handler \<Rightarrow> bool" where
  "quiet data h \<longleftrightarrow> (\<forall>L. tables_of data (snd (h L)) = tables_of data L)"

lemma quiet_done: "quiet data (done_with x)"
  by (simp add: quiet_def)

lemma quiet_redis_do: "(\<And>x. quiet data (k x)) \<Longrightarrow> quiet data (redis_do call k)"
  by (simp add: quiet_def redis_do_def split: prod.split)

lemma quiet_if: "quiet data f \<Longrightarrow> quiet data g \<Longrightarrow> quiet data (if P then f else g)"
  by simp

lemma quiet_let: "(\<And>x. quiet data (h x)) \<Longrightarrow> quiet data (let x = e in h x)"
  by simp

lemma quiet_route_msg: "quiet data (route_msg env m i)"
  unfolding route_msg_def
  by (rule quiet_redis_do)
    (simp add: quiet_def Let_def push_to_gateway_def split: option.split)

lemmas quiet_intros = quiet_done quiet_redis_do quiet_if quiet_route_msg

lemma db_do_quiet:
  assumes "\<And>x. quiet data (k x)" and "call (lg_db L) = (r, db)"
  shows "tables_of data (snd (db_do call k L)) = data (snd db)"
  using assms by (cases r) (auto simp: db_do_def quiet_def)

lemma db_do_read:
  assumes "spec_read pg data (lg_db L) (call (lg_db L)) dflt Q" and "\<And>x. quiet data (k x)"
  shows "tables_of data (snd (db_do call k L)) = tables_of data L"
  using db_do_quiet [where k = k and call = call and L = L and data = data, OF assms(2)]
    spec_read_data [OF assms(1)]
  by (cases "call (lg_db L)") (simp add: tables_of_def)

section \<open>Refinement\<close>

lemma reads_quiet:
  assumes conf: "pg_conforms (le_pg env) data"
  shows "tables_of data (snd (Login env q1 L)) = tables_of data L"
    and "tables_of data (snd (SyncMsg env q2 L)) = tables_of data L"
    and "tables_of data (snd (ListFriendsHandler env q3 L)) = tables_of data L"
    and "tables_of data (snd (GetFriendRequests env q4 L)) = tables_of data L"
    and "clean (hq_email q5) \<Longrightarrow> tables_of data (snd (HttpLogin env q5 L)) = tables_of data L"
proof -
  show "tables_of data (snd (Login env q1 L)) = tables_of data L"
    unfolding Login_def by (rule db_do_read, rule GetUserPassword_read [OF conf], intro quiet_intros)
  show "tables_of data (snd (SyncMsg env q2 L)) = tables_of data L"
    unfolding SyncMsg_def by (rule db_do_read, rule GetofflineMsgs_read [OF conf], intro quiet_intros)
  show "tables_of data (snd (ListFriendsHandler env q3 L)) = tables_of data L"
    unfolding ListFriendsHandler_def by (rule db_do_read, rule ListFriends_read [OF conf], intro quiet_intros)
  show "tables_of data (snd (GetFriendRequests env q4 L)) = tables_of data L"
    unfolding GetFriendRequests_def
    by (rule db_do_read, rule GetFriendRequestsForUser_read [OF conf], intro quiet_intros)
  show "tables_of data (snd (HttpLogin env q5 L)) = tables_of data L" if "clean (hq_email q5)"
    unfolding HttpLogin_def case_prod_beta
    by (rule db_do_read, rule CheckUserByEmail_read [OF conf that], intro quiet_intros)
qed

lemma GetUploadUrl_quiet:
  "GetUploadUrl env q L = Some (reply, L') \<Longrightarrow> tables_of data L' = tables_of data L"
  by (auto simp: GetUploadUrl_def Let_def split: option.splits prod.splits if_splits)

lemma store_msg_step:
  assumes conf: "pg_conforms (le_pg env) data" and "clean (cm_content m)"
    and "friend_of (tables_of data L) (cm_from_uid m) (cm_to_uid m)" and "m = sq_msg q"
  shows "service_step (Rpc_SendMsg q) (tables_of data L) (tables_of data (snd (store_msg env m L)))"
proof -
  let ?i = "to_string (le_now env (lg_world L))"
  obtain r db where s: "SaveMessage (le_pg env) ?i (cm_from_uid m) (cm_to_uid m) (cm_content m) (lg_db L) = (r, db)"
    by (metis surj_pair)
  have d: "tables_of data (snd (store_msg env m L)) = data (snd db)"
    unfolding store_msg_def Let_def by (rule db_do_quiet, intro quiet_intros, rule s)
  from SaveMessage_spec [OF conf digits_clean assms(2) s]
  consider "data (snd db) = tables_of data L"
    | n now where "sql_fresh (InsertMsg ?i (cm_from_uid m) (cm_to_uid m) (cm_content m) now) (tables_of data L) n"
      "data (snd db) = sql_update (InsertMsg ?i (cm_from_uid m) (cm_to_uid m) (cm_content m) now) n (tables_of data L)"
    unfolding tables_of_def by metis
  then show ?thesis
  proof cases
    case 1
    then show ?thesis unfolding d by (simp add: service_step.idle)
  next
    case 2
    show ?thesis unfolding d 2(2)
      by (rule service_step.send [OF assms(3,4) refl 2(1)])
  qed
qed

lemma SendMsg_step:
  assumes conf: "pg_conforms (le_pg env) data" and "clean (cm_content (sq_msg q))"
  shows "service_step (Rpc_SendMsg q) (tables_of data L) (tables_of data (snd (SendMsg env q L)))"
proof -
  let ?m = "sq_msg q"
  obtain r db where c: "AreFriends (le_pg env) (cm_from_uid ?m) (cm_to_uid ?m) (lg_db L) = (r, db)"
    by (metis surj_pair)
  note spec = AreFriends_read [OF conf, of "lg_db L" "cm_from_uid ?m" "cm_to_uid ?m"]
  have same: "tables_of data (L\<lparr>lg_db := db\<rparr>) = tables_of data L"
    using spec_read_data [OF spec] c by (simp add: tables_of_def)
  from spec_read_Inr [OF spec] c obtain friends where r: "r = Inr friends" by auto
  show ?thesis
  proof (cases friends)
    case True
    then have "friend_of (tables_of data (L\<lparr>lg_db := db\<rparr>)) (cm_from_uid ?m) (cm_to_uid ?m)"
      using spec c r unfolding same by (simp add: spec_read_def tables_of_def)
    from store_msg_step [OF conf assms(2) this refl] True r c show ?thesis
      unfolding same by (simp add: SendMsg_def Let_def)
  next
    case False
    then have "tables_of data (snd (SendMsg env q L)) = tables_of data L"
      using c r same by (simp add: SendMsg_def Let_def)
    then show ?thesis by (simp add: service_step.idle)
  qed
qed

lemma RegisterUser_step:
  assumes conf: "pg_conforms (le_pg env) data" and "clean_req (Rpc_RegisterUser q)"
  shows "service_step (Rpc_RegisterUser q) (tables_of data L) (tables_of data (snd (RegisterUser env q L)))"
proof -
  obtain r db where c: "CreateUser (le_pg env) (rq_nickname q) (rq_password q) (rq_email q) (lg_db L) = (r, db)"
    by (metis surj_pair)
  have d: "tables_of data (snd (RegisterUser env q L)) = data (snd db)"
    unfolding RegisterUser_def by (rule db_do_quiet, intro quiet_intros, rule c)
  from CreateUser_spec [OF conf _ _ _ c] assms(2) show ?thesis
    unfolding d by (auto simp: tables_of_def intro: service_step.idle service_step.register
        simp del: sql_update.simps sql_fresh.simps)
qed

lemma SendFriendRequest_step:
  assumes conf: "pg_conforms (le_pg env) data" and "clean_req (Rpc_SendFriendRequest q)"
  shows "service_step (Rpc_SendFriendRequest q) (tables_of data L) (tables_of data (snd (SendFriendRequest env q L)))"
proof -
  obtain r db where c: "CreateFriendRequest (le_pg env) (fq_from_uid q) (fq_to_uid q) (fq_reason q) 0 (lg_db L) = (r, db)"
    by (metis surj_pair)
  have d: "tables_of data (snd (SendFriendRequest env q L)) = data (snd db)"
    unfolding SendFriendRequest_def case_prod_beta by (rule db_do_quiet, intro quiet_intros, rule c)
  from CreateFriendRequest_spec [OF conf _ c] assms(2) show ?thesis
    unfolding d by (auto simp: tables_of_def intro: service_step.idle service_step.ask
        simp del: sql_update.simps sql_fresh.simps)
qed

lemma RespondFriendRequest_step:
  assumes conf: "pg_conforms (le_pg env) data"
  shows "service_step (Rpc_RespondFriendRequest q) (tables_of data L)
    (tables_of data (snd (RespondFriendRequest env q L)))"
proof (cases "pq_accept q")
  case True
  obtain r db where c: "AcceptFriendRequest (le_pg env) (pq_req_id q) (lg_db L) = (r, db)"
    by (metis surj_pair)
  have "tables_of data (snd (RespondFriendRequest env q L)) = data (snd db)"
    unfolding RespondFriendRequest_def if_P [OF True]
    by (rule db_do_quiet, intro quiet_intros, rule c)
  with AcceptFriendRequest_outcome [OF conf c] True show ?thesis
    by (auto simp: tables_of_def intro: service_step.idle service_step.befriend)
next
  case False
  obtain r db where c: "Execute (le_pg env) (sql_RejectRequest (pq_req_id q)) (lg_db L) = (r, db)"
    by (metis surj_pair)
  have d: "tables_of data (snd (RespondFriendRequest env q L)) = data (snd db)"
    unfolding RespondFriendRequest_def if_not_P [OF False]
    by (rule db_do_quiet, intro quiet_intros, rule c)
  from Execute_reject_spec [OF conf c] False show ?thesis
    unfolding d by (auto simp: tables_of_def intro: service_step.idle service_step.decline)
qed

lemma run_request_step:
  assumes conf: "pg_conforms (le_pg env) data" and "clean_req req" and "run_request env req L = Some L'"
  shows "service_step req (tables_of data L) (tables_of data L')"
proof (cases req)
  case (Rpc_SendMsg q)
  with assms SendMsg_step [OF conf] show ?thesis by auto
next
  case (Rpc_RegisterUser q)
  with assms RegisterUser_step [OF conf] show ?thesis by auto
next
  case (Rpc_SendFriendRequest q)
  with assms SendFriendRequest_step [OF conf] show ?thesis by auto
next
  case (Rpc_RespondFriendRequest q)
  with assms RespondFriendRequest_step [OF conf] show ?thesis by auto
next
  case (Rpc_GetUploadUrl q)
  with assms(3) GetUploadUrl_quiet show ?thesis by fastforce
next
  case (Rpc_HttpLogin q)
  with assms reads_quiet(5) [OF conf] show ?thesis by auto
qed (use assms reads_quiet(1-4) [OF conf] in auto)

text \<open>
  C2: the logic server refines the chat service. For a request whose text contains no apostrophe
  and no zero byte (\<open>clean_req\<close>), and whatever the pool and the database do (no free
  connection, a failing statement, a friend list of which only half was written), the tables
  after a request are the tables the service may go to: a message is stored only between
  friends, an account and a friend request only with fresh numbers, a friendship only for an
  open request of the two users, and every other request leaves the tables alone.
\<close>

theorem server_refines_service:
  assumes "pg_conforms (le_pg env) data" and "clean_req req" and "run_request env req L = Some L'"
  shows "service_step req (tables_of data L) (tables_of data L')"
  by (rule run_request_step [OF assms])

theorem server_refines_service_witness:
  "\<exists>L'. run_request mem_env (Rpc_RespondFriendRequest \<lparr>pq_req_id = 5, pq_accept = True\<rparr>)
       (mem_server two_users) = Some L' \<and>
     service_step (Rpc_RespondFriendRequest \<lparr>pq_req_id = 5, pq_accept = True\<rparr>) two_users
       (tables_of (\<lambda>t. t) L')"
proof -
  let ?req = "Rpc_RespondFriendRequest \<lparr>pq_req_id = 5, pq_accept = True\<rparr>"
  obtain L' where run: "run_request mem_env ?req (mem_server two_users) = Some L'" by simp
  have "pg_conforms (le_pg mem_env) (\<lambda>t. t)" by (simp add: mem_pg_conforms)
  from server_refines_service [OF this _ run] run show ?thesis by (simp add: tables_of_def)
qed

section \<open>Invariants\<close>

text \<open>The states of a server that is sent clean requests.\<close>

inductive chat_reach ::
  "('d, 'r, 'n, 'g) logic_env \<Rightarrow> ('d, 'r, 'n, 'g) logic \<Rightarrow> ('d, 'r, 'n, 'g) logic \<Rightarrow> bool"
  for env L0 where
  start: "chat_reach env L0 L0"
| request: "chat_reach env L0 L \<Longrightarrow> clean_req q \<Longrightarrow> run_request env q L = Some L' \<Longrightarrow> chat_reach env L0 L'"
| outside: "chat_reach env L0 L \<Longrightarrow> chat_reach env L0 (L\<lparr>lg_world := g\<rparr>)"

text \<open>What the service keeps, the server keeps.\<close>

lemma chat_reach_invariant:
  assumes "pg_conforms (le_pg env) data" and "chat_reach env L0 L"
    and "\<And>q t t'. service_step q t t' \<Longrightarrow> P t \<Longrightarrow> P t'" and "P (tables_of data L0)"
  shows "P (tables_of data L)"
  using assms(2)
proof induction
  case (request L q L')
  from run_request_step [OF assms(1) request.hyps(2,3)] request.IH show ?case by (rule assms(3))
qed (simp_all add: assms(4))

text \<open>
  Consent: every entry of a friend list stems from a friend request between the two users, and
  every stored message was sent between users who are friends.
\<close>

definition consensual :: "tables \<Rightarrow> bool" where
  "consensual t \<longleftrightarrow>
     (\<forall>m \<in> set (tb_msg t). friend_of t (mr_from m) (mr_to m)) \<and>
     (\<forall>u v. friend_of t u v \<longrightarrow>
        (\<exists>r \<in> set (tb_request t). {qr_from r, qr_to r} = {u, v}))"

definition requested :: "i64 \<Rightarrow> i64 \<Rightarrow> tables \<Rightarrow> bool" where
  "requested u v t \<longleftrightarrow> (\<exists>r \<in> set (tb_request t). {qr_from r, qr_to r} = {u, v})"

lemma requested_sym: "requested u v t \<longleftrightarrow> requested v u t"
  by (simp add: requested_def insert_commute)

lemma requested_updates [simp]:
  "requested u v (add_friend a b now t) \<longleftrightarrow> requested u v t"
  "requested u v (set_status req st t) \<longleftrightarrow> requested u v t"
  by (simp add: requested_def add_friend_def)
    (simp add: requested_def set_status_def if_distrib [of qr_from] if_distrib [of qr_to]
      del: if_image_distrib)

lemma requested_open: "x \<in> set (open_request req t) \<Longrightarrow> requested (qr_from x) (qr_to x) t"
  by (auto simp: requested_def open_request_def)

lemma consensual_alt:
  "consensual t \<longleftrightarrow> (\<forall>m \<in> set (tb_msg t). friend_of t (mr_from m) (mr_to m)) \<and>
     (\<forall>u v. friend_of t u v \<longrightarrow> requested u v t)"
  by (simp add: consensual_def requested_def)

lemma consensual_add_friend: "consensual t \<Longrightarrow> requested u v t \<Longrightarrow> consensual (add_friend u v now t)"
  by (auto simp: consensual_alt)

lemma consensual_set_status: "consensual t \<Longrightarrow> consensual (set_status req st t)"
  by (simp add: consensual_alt)

lemma consensual_step: "service_step q t t' \<Longrightarrow> consensual t \<Longrightarrow> consensual t'"
proof (induction rule: service_step.induct)
  case (befriend q x t t' now)
  have "requested (qr_from x) (qr_to x) t" by (rule requested_open [OF befriend.hyps(2)])
  with befriend requested_sym show ?case
    by (auto simp: accept_outcomes_def make_friends_def
        intro!: consensual_add_friend consensual_set_status)
next
  case (decline q t)
  then show ?case by (simp add: consensual_set_status)
next
  case (send t m q s i now n)
  then show ?case by (auto simp: consensual_def friend_of_def)
next
  case (register s q n t)
  then show ?case by (simp add: consensual_def friend_of_def)
next
  case (ask s q now t n)
  have "requested u v (sql_update s n t)" if "requested u v t" for u v
    using that ask.hyps(1) by (auto simp: requested_def)
  moreover have "friend_of (sql_update s n t) = friend_of t" "tb_msg (sql_update s n t) = tb_msg t"
    using ask.hyps(1) by (simp_all add: friend_of_def fun_eq_iff)
  ultimately show ?case using ask.prems by (simp add: consensual_alt)
qed

text \<open>
  C3: nobody is messaged by a stranger: starting from an empty database, after any sequence of
  clean requests every stored message was sent from a user to a friend, and every friendship
  stems from a friend request between the two users.
\<close>

theorem messages_need_consent:
  assumes "pg_conforms (le_pg env) data" and "chat_reach env L0 L" and "tables_of data L0 = no_tables"
  shows "(\<forall>m \<in> set (tb_msg (tables_of data L)). friend_of (tables_of data L) (mr_from m) (mr_to m)) \<and>
    (\<forall>u v. friend_of (tables_of data L) u v \<longrightarrow>
       (\<exists>r \<in> set (tb_request (tables_of data L)). {qr_from r, qr_to r} = {u, v}))"
proof -
  have "consensual (tables_of data L0)"
    using assms(3) by (simp add: consensual_def no_tables_def friend_of_def)
  from chat_reach_invariant [where P = consensual, OF assms(1,2) consensual_step this]
  show ?thesis by (simp add: consensual_def)
qed

lemma example_reach:
  "\<exists>L. chat_reach mem_env (mem_server no_tables) L \<and>
     run_request mem_env (Rpc_SendFriendRequest \<lparr>fq_from_uid = 1, fq_to_uid = 2, fq_reason = ''hi''\<rparr>)
       (mem_server no_tables) = Some L"
proof -
  let ?q = "Rpc_SendFriendRequest \<lparr>fq_from_uid = 1, fq_to_uid = 2, fq_reason = ''hi''\<rparr>"
  have "clean_req ?q" by (simp add: clean_def quote_free_def NUL_def)
  moreover obtain L where L: "run_request mem_env ?q (mem_server no_tables) = Some L" by simp
  ultimately have "chat_reach mem_env (mem_server no_tables) L"
    by (rule chat_reach.request [OF chat_reach.start])
  with L show ?thesis by blast
qed

theorem messages_need_consent_witness:
  "\<exists>L. run_request mem_env (Rpc_SendFriendRequest \<lparr>fq_from_uid = 1, fq_to_uid = 2, fq_reason = ''hi''\<rparr>)
       (mem_server no_tables) = Some L \<and>
     (\<forall>m \<in> set (tb_msg (tables_of (\<lambda>t. t) L)). friend_of (tables_of (\<lambda>t. t) L) (mr_from m) (mr_to m))"
proof -
  obtain L where L: "chat_reach mem_env (mem_server no_tables) L"
    "run_request mem_env (Rpc_SendFriendRequest \<lparr>fq_from_uid = 1, fq_to_uid = 2, fq_reason = ''hi''\<rparr>)
       (mem_server no_tables) = Some L"
    using example_reach by blast
  have "tables_of (\<lambda>t. t) (mem_server no_tables) = no_tables" by (simp add: tables_of_def)
  with messages_need_consent [OF _ L(1)] L(2) show ?thesis by (auto simp: mem_pg_conforms)
qed

end
