(* ===== verification/Http_Api.thy ===== *)
theory Http_Api
  imports Im_Proto
begin

text \<open>
  The HTTP part of \<open>server/gateway/main.cc\<close>: \<open>POST /api/register\<close> and \<open>POST /api/login\<close>, which
  collect the body chunk by chunk, call the logic server and answer a JSON object, and the
  preflight answer of \<open>OPTIONS\<close>.

  nlohmann::json is a parameter: a type of values \<open>'j\<close> and the operations the code calls.
  \<open>None\<close> is an exception of the library. A call of the stub answers whether its status is OK,
  and the reply object, which the code also reads when the status is not OK.
\<close>

section \<open>The JSON library and the stub\<close>

text \<open>
  \<open>j_at\<close> is the non-constant \<open>operator[]\<close>: it answers the element and the value afterwards,
  since it inserts a null element for a missing key. \<open>j_set\<close> assigns to \<open>j[key]\<close>, \<open>j_object\<close> is
  the object of an initialiser list, \<open>j_dump\<close> throws on text that is not UTF-8.
\<close>

record ('j, 'l) http_env =
  j_parse :: "string \<Rightarrow> 'j option"
  j_at :: "'j \<Rightarrow> string \<Rightarrow> ('j \<times> 'j) option"
  j_get_string :: "'j \<Rightarrow> string option"
  j_null :: 'j
  j_set :: "string \<Rightarrow> 'j \<Rightarrow> 'j \<Rightarrow> 'j"
  j_object :: "(string \<times> 'j) list \<Rightarrow> 'j"
  j_int :: "int \<Rightarrow> 'j"
  j_string :: "string \<Rightarrow> 'j"
  j_dump :: "'j \<Rightarrow> string option"
  he_register :: "RegisterReq \<Rightarrow> 'l \<Rightarrow> (bool \<times> RegisterRes) \<times> 'l"
  he_login :: "HttpLoginReq \<Rightarrow> 'l \<Rightarrow> (bool \<times> HttpLoginRes) \<times> 'l"

text \<open>The UTF-8 bytes of the two Chinese messages (registered, logged in).\<close>

definition utf8 :: "nat list \<Rightarrow> string" where
  "utf8 = map char_of"

definition msg_registered :: string where
  "msg_registered = utf8 [0xE6, 0xB3, 0xA8, 0xE5, 0x86, 0x8C, 0xE6, 0x88, 0x90, 0xE5, 0x8A, 0x9F]"

definition msg_logged_in :: string where
  "msg_logged_in = utf8 [0xE7, 0x99, 0xBB, 0xE5, 0xBD, 0x95, 0xE6, 0x88, 0x90, 0xE5, 0x8A, 0x9F]"

section \<open>The answers\<close>

text \<open>\<open>j[key].get<std::string>()\<close>, with \<open>j\<close> as it is afterwards.\<close>

definition json_field :: "('j, 'l) http_env \<Rightarrow> string \<Rightarrow> 'j \<Rightarrow> (string \<times> 'j) option" where
  "json_field env key j =
     (case j_at env j key of
        None \<Rightarrow> None
      | Some (v, j') \<Rightarrow> map_option (\<lambda>s. (s, j')) (j_get_string env v))"

definition json_error :: "('j, 'l) http_env \<Rightarrow> string option" where
  "json_error env =
     j_dump env (j_object env [(''code'', j_int env 400), (''msg'', j_string env ''Invalid JSON'')])"

text \<open>
  \<open>res->end(v.dump())\<close> inside the \<open>try\<close> block: an exception of \<open>dump\<close> is caught like one before
  the call.
\<close>

definition json_answer :: "('j, 'l) http_env \<Rightarrow> 'j \<Rightarrow> string option" where
  "json_answer env v = (case j_dump env v of Some body \<Rightarrow> Some body | None \<Rightarrow> json_error env)"

definition json_failed :: "('j, 'l) http_env \<Rightarrow> string \<Rightarrow> 'j" where
  "json_failed env err_msg =
     j_set env ''msg'' (j_string env err_msg) (j_set env ''code'' (j_int env 500) (j_null env))"

definition register_request :: "('j, 'l) http_env \<Rightarrow> string \<Rightarrow> RegisterReq option" where
  "register_request env buffer =
     (case j_parse env buffer of
        None \<Rightarrow> None
      | Some j \<Rightarrow>
          (case json_field env ''email'' j of
             None \<Rightarrow> None
           | Some (email, j1) \<Rightarrow>
               (case json_field env ''nickname'' j1 of
                  None \<Rightarrow> None
                | Some (nickname, j2) \<Rightarrow>
                    (case json_field env ''password'' j2 of
                       None \<Rightarrow> None
                     | Some (password, j3) \<Rightarrow>
                         Some \<lparr>rq_email = email, rq_nickname = nickname, rq_password = password\<rparr>))))"

definition register_reply :: "('j, 'l) http_env \<Rightarrow> bool \<Rightarrow> RegisterRes \<Rightarrow> 'j" where
  "register_reply env ok rpc_res =
     (if ok \<and> rr_err_code rpc_res = 0 then
        j_set env ''uid'' (j_int env (sint (rr_uid rpc_res)))
          (j_set env ''msg'' (j_string env msg_registered)
            (j_set env ''code'' (j_int env 200) (j_null env)))
      else json_failed env (rr_err_msg rpc_res))"

text \<open>
  The body of the answer and the state of the logic server; \<open>None\<close> is an exception that leaves
  the handler.
\<close>

definition register_answer :: "('j, 'l) http_env \<Rightarrow> string \<Rightarrow> 'l \<Rightarrow> string option \<times> 'l" where
  "register_answer env buffer l =
     (case register_request env buffer of
        None \<Rightarrow> (json_error env, l)
      | Some rpc_req \<Rightarrow>
          (case he_register env rpc_req l of
             ((ok, rpc_res), l') \<Rightarrow> (json_answer env (register_reply env ok rpc_res), l')))"

text \<open>The login request, with the JSON value that the answer reads the e-mail from again.\<close>

definition login_request :: "('j, 'l) http_env \<Rightarrow> string \<Rightarrow> (HttpLoginReq \<times> 'j) option" where
  "login_request env buffer =
     (case j_parse env buffer of
        None \<Rightarrow> None
      | Some j \<Rightarrow>
          (case json_field env ''email'' j of
             None \<Rightarrow> None
           | Some (email, j1) \<Rightarrow>
               (case json_field env ''password'' j1 of
                  None \<Rightarrow> None
                | Some (password, j2) \<Rightarrow> Some (\<lparr>hq_email = email, hq_password = password\<rparr>, j2))))"

definition login_reply :: "('j, 'l) http_env \<Rightarrow> 'j \<Rightarrow> bool \<Rightarrow> HttpLoginRes \<Rightarrow> 'j option" where
  "login_reply env j ok rpc_res =
     (if ok \<and> hr_err_code rpc_res = 0 then
        (case j_at env j ''email'' of
           None \<Rightarrow> None
         | Some (email, j') \<Rightarrow>
             Some (j_set env ''userInfo''
               (j_object env [(''id'', j_int env (sint (hr_uid rpc_res))),
                              (''nickname'', j_string env (hr_nickname rpc_res)),
                              (''email'', email),
                              (''avatar'', j_string env (hr_avatar rpc_res))])
               (j_set env ''token'' (j_string env (hr_token rpc_res))
                 (j_set env ''msg'' (j_string env msg_logged_in)
                   (j_set env ''code'' (j_int env 200) (j_null env))))))
      else Some (json_failed env (hr_err_msg rpc_res)))"

definition login_answer :: "('j, 'l) http_env \<Rightarrow> string \<Rightarrow> 'l \<Rightarrow> string option \<times> 'l" where
  "login_answer env buffer l =
     (case login_request env buffer of
        None \<Rightarrow> (json_error env, l)
      | Some (rpc_req, j) \<Rightarrow>
          (case he_login env rpc_req l of
             ((ok, rpc_res), l') \<Rightarrow>
               (case login_reply env j ok rpc_res of
                  None \<Rightarrow> (json_error env, l')
                | Some resp_json \<Rightarrow> (json_answer env resp_json, l'))))"

section \<open>Receiving the body\<close>

text \<open>
  One exchange: the headers written when the request arrives, the buffer that the callback
  owns, the bodies passed to \<open>end\<close>, the state of the logic server, and whether an exception
  has left the callback. An aborted request gets no further chunk.
\<close>

record 'l exchange =
  ex_headers :: "(string \<times> string) list"
  ex_buffer :: string
  ex_ended :: "string list"
  ex_threw :: bool
  ex_logic :: 'l

definition http_start :: "'l \<Rightarrow> 'l exchange" where
  "http_start l = \<lparr>ex_headers = [(''Access-Control-Allow-Origin'', ''*'')], ex_buffer = [], ex_ended = [],
     ex_threw = False, ex_logic = l\<rparr>"

definition on_data ::
  "(string \<Rightarrow> 'l \<Rightarrow> string option \<times> 'l) \<Rightarrow> string \<times> bool \<Rightarrow> 'l exchange \<Rightarrow> 'l exchange" where
  "on_data answer = (\<lambda>(chunk, isLast) X.
     let buffer = ex_buffer X @ chunk; X1 = X\<lparr>ex_buffer := buffer\<rparr> in
     if isLast then
       (case answer buffer (ex_logic X) of
          (Some body, l) \<Rightarrow> X1\<lparr>ex_ended := ex_ended X @ [body], ex_logic := l\<rparr>
        | (None, l) \<Rightarrow> X1\<lparr>ex_threw := True, ex_logic := l\<rparr>)
     else X1)"

text \<open>The chunks as uWebSockets delivers them: the last one is marked.\<close>

definition post_chunks ::
  "(string \<Rightarrow> 'l \<Rightarrow> string option \<times> 'l) \<Rightarrow> (string \<times> bool) list \<Rightarrow> 'l \<Rightarrow> 'l exchange" where
  "post_chunks answer chunks l = fold (on_data answer) chunks (http_start l)"

definition options_headers :: "(string \<times> string) list" where
  "options_headers =
     [(''Access-Control-Allow-Origin'', ''*''),
      (''Access-Control-Allow-Methods'', ''GET, POST, OPTIONS''),
      (''Access-Control-Allow-Headers'', ''Content-Type, Authorization'')]"

section \<open>Chunks do not matter\<close>

lemma on_data_simps [simp]:
  "on_data answer (chunk, False) X = X\<lparr>ex_buffer := ex_buffer X @ chunk\<rparr>"
  "on_data answer (chunk, True) X =
     (case answer (ex_buffer X @ chunk) (ex_logic X) of
        (Some body, l) \<Rightarrow> X\<lparr>ex_buffer := ex_buffer X @ chunk, ex_ended := ex_ended X @ [body], ex_logic := l\<rparr>
      | (None, l) \<Rightarrow> X\<lparr>ex_buffer := ex_buffer X @ chunk, ex_threw := True, ex_logic := l\<rparr>)"
  by (simp_all add: on_data_def Let_def)

lemma fold_on_data_open:
  "fold (on_data answer) (map (\<lambda>c. (c, False)) cs) X = X\<lparr>ex_buffer := ex_buffer X @ concat cs\<rparr>"
  by (induction cs arbitrary: X) simp_all

text \<open>
  C23: however the network cuts the body of a POST request into chunks, the exchange is the one
  of a body that arrives in one piece: nothing is answered and the logic server is not called
  before the last chunk, and then the handler runs once, on the whole body.
\<close>

theorem post_chunks_equiv:
  "post_chunks answer (map (\<lambda>c. (c, False)) cs @ [(c, True)]) l = post_chunks answer [(concat cs @ c, True)] l \<and>
   post_chunks answer (map (\<lambda>c. (c, False)) cs) l = (http_start l)\<lparr>ex_buffer := concat cs\<rparr> \<and>
   (case answer (concat cs @ c) l of
      (Some body, l') \<Rightarrow> ex_ended (post_chunks answer (map (\<lambda>c. (c, False)) cs @ [(c, True)]) l) = [body] \<and>
        ex_logic (post_chunks answer (map (\<lambda>c. (c, False)) cs @ [(c, True)]) l) = l'
    | (None, l') \<Rightarrow> ex_threw (post_chunks answer (map (\<lambda>c. (c, False)) cs @ [(c, True)]) l))"
  by (simp add: post_chunks_def fold_on_data_open http_start_def split: prod.split option.split)

section \<open>When the logic server is called\<close>

lemma request_ignores_stub:
  "register_request (env\<lparr>he_register := f, he_login := g\<rparr>) b = register_request env b"
  "login_request (env\<lparr>he_register := f, he_login := g\<rparr>) b = login_request env b"
  "json_answer (env\<lparr>he_register := f, he_login := g\<rparr>) v = json_answer env v"
  "register_reply (env\<lparr>he_register := f, he_login := g\<rparr>) ok res = register_reply env ok res"
  "login_reply (env\<lparr>he_register := f, he_login := g\<rparr>) j ok hres = login_reply env j ok hres"
  by (simp_all add: register_request_def login_request_def json_field_def json_answer_def json_error_def
      register_reply_def login_reply_def json_failed_def
      cong: option.case_cong prod.case_cong)

end
