(* ===== verification/Chat_System.thy ===== *)
theory Chat_System
  imports Gateway_Sessions Chat_Service Http_Api
begin

text \<open>
  The servers together: the gateway with the handlers of the logic server behind its stub. The
  properties of this theory follow a message from the socket of its sender to the socket of
  its receiver, and an account from its registration over HTTP to the login.
\<close>

section \<open>The stub\<close>

text \<open>
  A call over gRPC runs the handler; an exception of the handler is a status that is not OK,
  with a reply that has not been filled in. (\<open>GetUploadUrl\<close> may not return and keeps its
  parameter.)
\<close>

definition stub ::
  "('q \<Rightarrow> ('a, 'd, 'r, 'n, 'g) handler) \<Rightarrow> 'q \<Rightarrow> ('d, 'r, 'n, 'g) logic \<Rightarrow>
   'a option \<times> ('d, 'r, 'n, 'g) logic" where
  "stub h q L = (case h q L of (Inr res, L') \<Rightarrow> (Some res, L') | (Inl e, L') \<Rightarrow> (None, L'))"

definition http_stub ::
  "'a \<Rightarrow> ('q \<Rightarrow> ('a, 'd, 'r, 'n, 'g) handler) \<Rightarrow> 'q \<Rightarrow> ('d, 'r, 'n, 'g) logic \<Rightarrow>
   (bool \<times> 'a) \<times> ('d, 'r, 'n, 'g) logic" where
  "http_stub blank h q L =
     (case h q L of (Inr res, L') \<Rightarrow> ((True, res), L') | (Inl e, L') \<Rightarrow> ((False, blank), L'))"

definition wire ::
  "('d, 'r, 'n, 'g) logic_env \<Rightarrow> ('d, 'r, 'n, 'g) logic gateway_env \<Rightarrow> ('d, 'r, 'n, 'g) logic gateway_env" where
  "wire le env = env\<lparr>ge_login := stub (Login le), ge_send := stub (SendMsg le), ge_sync := stub (SyncMsg le)\<rparr>"

definition wire_http ::
  "('d, 'r, 'n, 'g) logic_env \<Rightarrow> ('j, ('d, 'r, 'n, 'g) logic) http_env \<Rightarrow>
   ('j, ('d, 'r, 'n, 'g) logic) http_env" where
  "wire_http le env = env\<lparr>he_register := http_stub RegisterRes_default (RegisterUser le),
     he_login := http_stub HttpLoginRes_default (HttpLogin le)\<rparr>"

lemma wire_simps [simp]:
  "ge_endian (wire le env) = ge_endian env" "ge_parse_login (wire le env) = ge_parse_login env"
  "ge_parse_send (wire le env) = ge_parse_send env" "ge_parse_sync (wire le env) = ge_parse_sync env"
  "ge_ser_login (wire le env) = ge_ser_login env" "ge_ser_send (wire le env) = ge_ser_send env"
  "ge_ser_sync (wire le env) = ge_ser_sync env"
  "ge_login (wire le env) = stub (Login le)" "ge_send (wire le env) = stub (SendMsg le)"
  "ge_sync (wire le env) = stub (SyncMsg le)"
  by (simp_all add: wire_def)

section \<open>Packets\<close>

text \<open>A binary message whose header has this command and whose length field is honest.\<close>

definition is_packet :: "endian \<Rightarrow> u16 \<Rightarrow> PacketHeader \<Rightarrow> bytes \<Rightarrow> bool" where
  "is_packet e cmd h m \<longleftrightarrow> DecodeHeader e m = Some h \<and> ph_cmd_id h = cmd \<and>
     unat (ph_length h) \<le> length m \<and> length m < 2 ^ 31"

lemma is_packetD:
  assumes "is_packet e cmd h m"
  shows "DecodeHeader e m = Some h" "ph_cmd_id h = cmd" "HEADER_LEN \<le> length m"
    "length_ok h m" "body_bytes m (message_size m) = Some (drop HEADER_LEN m)"
proof -
  show "DecodeHeader e m = Some h" "ph_cmd_id h = cmd" using assms by (simp_all add: is_packet_def)
  show len: "HEADER_LEN \<le> length m"
    using assms by (auto simp: is_packet_def DecodeHeader_def split: if_splits)
  show "length_ok h m" using assms by (simp add: is_packet_def length_ok_iff)
  show "body_bytes m (message_size m) = Some (drop HEADER_LEN m)"
    using assms by (intro body_bytes_message len) (simp add: is_packet_def)
qed

lemma send_packet:
  assumes "is_packet (ge_endian env) 0x1003 h m" and "ge_parse_send env (drop HEADER_LEN m) = Some req"
    and "gw_sockets G s = Some u" and "u \<noteq> 0"
    and "ge_send env (req\<lparr>sq_msg := (sq_msg req)\<lparr>cm_from_uid := u\<rparr>\<rparr>) (gw_logic G) = (Some res, l)"
  shows "ws_message env s m OP_BINARY G =
    Some (G\<lparr>gw_logic := l, gw_sent := gw_sent G @ [(s, encode_packet_header (ge_endian env)
      (reply_header h 0x1004 (ge_ser_send env res)) @ ge_ser_send env res)]\<rparr>)"
  using is_packetD [OF assms(1)] assms(2-5)
  by (simp add: ws_message_def on_send_def uid_of_def Let_def send_reply_def ws_send_def domIff)

lemma sync_packet:
  assumes "is_packet (ge_endian env) 0x1006 h m" and "ge_parse_sync env (drop HEADER_LEN m) = Some req"
    and "gw_sockets G s = Some u"
    and "ge_sync env (req\<lparr>yq_uid := u\<rparr>) (gw_logic G) = (Some res, l)"
  shows "ws_message env s m OP_BINARY G =
    Some (G\<lparr>gw_logic := l, gw_sent := gw_sent G @ [(s, encode_packet_header (ge_endian env)
      (reply_header h 0x1007 (ge_ser_sync env res)) @ ge_ser_sync env res)]\<rparr>)"
  using is_packetD [OF assms(1)] assms(2-4)
  by (simp add: ws_message_def on_sync_def uid_of_def send_reply_def ws_send_def domIff)

section \<open>From sender to receiver\<close>

lemma db_up_AreFriends: "db_up env mx st \<Longrightarrow> AreFriends env u v st = (r, st') \<Longrightarrow> db_up env mx st'"
  unfolding AreFriends_def by (rule db_up_query)

lemma db_up_SaveMessage: "db_up env mx st \<Longrightarrow> SaveMessage env i u v c st = (r, st') \<Longrightarrow> db_up env mx st'"
  unfolding SaveMessage_def by (rule db_up_query)

text \<open>
  Between friends a message is acknowledged, and it is stored as a fresh row or it is lost; the
  database is usable afterwards.
\<close>

lemma SendMsg_friends:
  assumes conf: "pg_conforms (le_pg env) data" and up: "db_up (le_pg env) mx (lg_db L)"
    and "clean (cm_content m)" and "friend_of (tables_of data L) (cm_from_uid m) (cm_to_uid m)"
  shows "\<exists>reply L'. SendMsg env \<lparr>sq_msg = m\<rparr> L = (Inr reply, L') \<and> sr_err_code reply = ERR_SUCCESS \<and>
    db_up (le_pg env) mx (lg_db L') \<and>
    (tables_of data L' = tables_of data L \<or>
     (\<exists>n i now. 0 <s n \<and> tables_of data L' =
        sql_update (InsertMsg i (cm_from_uid m) (cm_to_uid m) (cm_content m) now) n (tables_of data L)))"
proof -
  obtain r1 db1 where c: "AreFriends (le_pg env) (cm_from_uid m) (cm_to_uid m) (lg_db L) = (r1, db1)"
    by (metis surj_pair)
  note spec = AreFriends_read [OF conf, of "lg_db L" "cm_from_uid m" "cm_to_uid m"]
  have t1: "data (snd db1) = tables_of data L"
    using spec_read_data [OF spec] c by (simp add: tables_of_def)
  have r1: "r1 = Inr True"
    using spec_read_up [OF spec up] c assms(4) by (simp add: tables_of_def)
  let ?i = "le_now env (lg_world L)"
  obtain r2 db2 where s: "SaveMessage (le_pg env) (to_string ?i) (cm_from_uid m) (cm_to_uid m)
      (cm_content m) db1 = (r2, db2)" by (metis surj_pair)
  from SaveMessage_spec [OF conf digits_clean assms(3) s] obtain b where r2: "r2 = Inr b"
    and d: "data (snd db2) = tables_of data L \<or>
      (\<exists>n i now. 0 <s n \<and> data (snd db2) =
        sql_update (InsertMsg i (cm_from_uid m) (cm_to_uid m) (cm_content m) now) n (tables_of data L))"
    unfolding t1 by (metis sql_fresh.simps(1))
  have up2: "db_up (le_pg env) mx db2"
    by (rule db_up_SaveMessage [OF db_up_AreFriends [OF up c] s])
  obtain reply L' where route: "route_msg env m ?i (L\<lparr>lg_db := db2\<rparr>) = (Inr reply, L')"
    and ok: "sr_err_code reply = ERR_SUCCESS" and db: "lg_db L' = db2"
    using route_msg_reply [of env m ?i "L\<lparr>lg_db := db2\<rparr>"] by auto
  have "SendMsg env \<lparr>sq_msg = m\<rparr> L = (Inr reply, L')"
    using c r1 s r2 route by (simp add: SendMsg_def store_msg_def Let_def)
  with ok db up2 d show ?thesis by (simp add: tables_of_def)
qed

lemma SyncMsg_up:
  assumes conf: "pg_conforms (le_pg env) data" and up: "db_up (le_pg env) mx (lg_db L)"
  shows "\<exists>L'. SyncMsg env q L = (Inr (SyncMsgRes_default\<lparr>yr_err_code := err_number ERR_SUCCESS,
    yr_msgs := map chat_of_row (offline_msgs (yq_uid q) (yq_last_msg_id q) (tables_of data L))\<rparr>), L')"
proof -
  obtain r db where c: "GetofflineMsgs (le_pg env) (yq_uid q) (yq_last_msg_id q) (lg_db L) = (r, db)"
    by (metis surj_pair)
  with spec_read_up [OF GetofflineMsgs_read [OF conf] up, of "yq_uid q" "yq_last_msg_id q"]
  show ?thesis by (simp add: SyncMsg_def tables_of_def)
qed

text \<open>A row that has just been inserted is among the first 100 when there were fewer.\<close>

lemma inserted_offline:
  assumes "length (filter (\<lambda>x. mr_to x = v) (tb_msg t)) < 100" and "0 <s n"
  shows "\<exists>m \<in> set (map chat_of_row (offline_msgs v 0 (sql_update (InsertMsg i u v c now) n t))).
    cm_from_uid m = u \<and> cm_to_uid m = v \<and> cm_content m = c"
proof -
  let ?x = "\<lparr>mr_id = n, mr_msg_id = i, mr_from = u, mr_to = v, mr_content = c, mr_time = now\<rparr>"
  let ?t = "sql_update (InsertMsg i u v c now) n t"
  have "length (filter (\<lambda>y. mr_to y = v \<and> 0 <s mr_id y) (tb_msg t)) \<le> length (filter (\<lambda>x. mr_to x = v) (tb_msg t))"
    by (rule length_filter_mono) simp
  then have "length (filter (\<lambda>y. mr_to y = v \<and> 0 <s mr_id y) (tb_msg ?t)) \<le> 100"
    using assms(1) by simp
  moreover have "?x \<in> set (filter (\<lambda>y. mr_to y = v \<and> 0 <s mr_id y) (tb_msg ?t))"
    using assms(2) by simp
  ultimately have "?x \<in> set (offline_msgs v 0 ?t)" by (simp add: offline_msgs_def)
  then have "chat_of_row ?x \<in> set (map chat_of_row (offline_msgs v 0 ?t))"
    unfolding set_map by (rule imageI)
  moreover have "cm_from_uid (chat_of_row ?x) = u" "cm_to_uid (chat_of_row ?x) = v"
    "cm_content (chat_of_row ?x) = c"
    by (simp_all add: chat_of_row_def)
  ultimately show ?thesis by blast
qed

text \<open>
  C1: a chat message gets from the sender's socket to the receiver's, through the gateway, the
  logic server and the database. A user \<open>a\<close> sends a packet with a message to a friend \<open>b\<close>,
  whatever sender the packet names: the gateway answers one frame. Then either the message has
  been lost and nothing is stored, or the next synchronisation of \<open>b\<close> from 0 (with fewer than
  100 messages waiting before) is answered with one frame whose body is the serialised reply,
  and the reply contains a message with sender \<open>a\<close>, receiver \<open>b\<close> and this content.
\<close>

theorem message_reaches_friend:
  assumes conf: "pg_conforms (le_pg le) data" and up: "db_up (le_pg le) mx (lg_db (gw_logic G))"
    and s: "gw_sockets G s = Some a" "a \<noteq> 0" and t: "gw_sockets G t = Some b"
    and p1: "is_packet (ge_endian env) 0x1003 h1 m1" "ge_parse_send env (drop HEADER_LEN m1) = Some req"
    and to: "cm_to_uid (sq_msg req) = b" and clean: "clean (cm_content (sq_msg req))"
    and friends: "friend_of (tables_of data (gw_logic G)) a b"
    and few: "length (filter (\<lambda>x. mr_to x = b) (tb_msg (tables_of data (gw_logic G)))) < 100"
    and p2: "is_packet (ge_endian env) 0x1006 h2 m2" "ge_parse_sync env (drop HEADER_LEN m2) = Some q"
      "yq_last_msg_id q = 0"
  shows "\<exists>G1 f1. ws_message (wire le env) s m1 OP_BINARY G = Some G1 \<and> gw_sent G1 = gw_sent G @ [(s, f1)] \<and>
    (tables_of data (gw_logic G1) = tables_of data (gw_logic G) \<or>
     (\<exists>G2 hd res. ws_message (wire le env) t m2 OP_BINARY G1 = Some G2 \<and>
        gw_sent G2 = gw_sent G1 @ [(t, hd @ ge_ser_sync env res)] \<and> length hd = HEADER_LEN \<and>
        (\<exists>m \<in> set (yr_msgs res). cm_from_uid m = a \<and> cm_to_uid m = b \<and>
           cm_content m = cm_content (sq_msg req))))"
proof -
  let ?e = "wire le env" and ?L = "gw_logic G"
  let ?m = "(sq_msg req)\<lparr>cm_from_uid := a\<rparr>"
  have req: "req\<lparr>sq_msg := ?m\<rparr> = \<lparr>sq_msg = ?m\<rparr>" by simp
  have m: "cm_from_uid ?m = a" "cm_to_uid ?m = b" "cm_content ?m = cm_content (sq_msg req)"
    using to by simp_all
  have "clean (cm_content ?m)" "friend_of (tables_of data ?L) (cm_from_uid ?m) (cm_to_uid ?m)"
    unfolding m by (fact clean, fact friends)
  from SendMsg_friends [OF conf up this] obtain reply L1
    where send: "SendMsg le \<lparr>sq_msg = ?m\<rparr> ?L = (Inr reply, L1)"
    and up1: "db_up (le_pg le) mx (lg_db L1)"
    and tables: "tables_of data L1 = tables_of data ?L \<or> (\<exists>n i now. 0 <s n \<and> tables_of data L1 =
      sql_update (InsertMsg i a b (cm_content (sq_msg req)) now) n (tables_of data ?L))"
    unfolding m by blast
  let ?G1 = "G\<lparr>gw_logic := L1, gw_sent := gw_sent G @ [(s, encode_packet_header (ge_endian env)
      (reply_header h1 0x1004 (ge_ser_send env reply)) @ ge_ser_send env reply)]\<rparr>"
  have run1: "ws_message ?e s m1 OP_BINARY G = Some ?G1"
    using send_packet [of ?e h1 m1 req G s a reply L1] p1 s send req by (simp add: stub_def)
  have t1: "gw_sockets ?G1 t = Some b" and L1: "gw_logic ?G1 = L1" using t by simp_all
  obtain L2 where sync: "SyncMsg le (q\<lparr>yq_uid := b\<rparr>) L1 = (Inr (SyncMsgRes_default\<lparr>yr_err_code := err_number ERR_SUCCESS,
      yr_msgs := map chat_of_row (offline_msgs b 0 (tables_of data L1))\<rparr>), L2)"
    using SyncMsg_up [OF conf up1, of "q\<lparr>yq_uid := b\<rparr>"] p2(3) by auto
  let ?res = "SyncMsgRes_default\<lparr>yr_err_code := err_number ERR_SUCCESS,
      yr_msgs := map chat_of_row (offline_msgs b 0 (tables_of data L1))\<rparr>"
  let ?hd = "encode_packet_header (ge_endian env) (reply_header h2 0x1007 (ge_ser_sync env ?res))"
  have run2: "ws_message ?e t m2 OP_BINARY ?G1 =
      Some (?G1\<lparr>gw_logic := L2, gw_sent := gw_sent ?G1 @ [(t, ?hd @ ge_ser_sync env ?res)]\<rparr>)"
    using sync_packet [of ?e h2 m2 q ?G1 t b ?res L2] p2 t1 sync by (simp add: stub_def)
  have hd: "length ?hd = HEADER_LEN" by (simp add: encode_packet_header_eq HEADER_LEN_def)
  show ?thesis
  proof (cases "tables_of data L1 = tables_of data ?L")
    case True
    with run1 L1 show ?thesis by (intro exI [of _ ?G1]) simp
  next
    case False
    with tables obtain n i now where n: "0 <s n" and t': "tables_of data L1 =
        sql_update (InsertMsg i a b (cm_content (sq_msg req)) now) n (tables_of data ?L)" by blast
    have "\<exists>m \<in> set (yr_msgs ?res). cm_from_uid m = a \<and> cm_to_uid m = b \<and>
           cm_content m = cm_content (sq_msg req)"
      using inserted_offline [OF few n] unfolding t' by simp
    with run1 run2 hd show ?thesis
      by (intro exI [of _ ?G1]) (auto intro!: exI [of _ ?hd] exI [of _ ?res])
  qed
qed

section \<open>An account, from registration to connection\<close>

lemma db_up_CreateUser: "db_up env mx st \<Longrightarrow> CreateUser env u p e st = (r, st') \<Longrightarrow> db_up env mx st'"
  unfolding CreateUser_def by (rule db_up_query)

lemma db_up_CheckUserByEmail:
  "db_up env mx st \<Longrightarrow> CheckUserByEmail env e p info st = (r, st') \<Longrightarrow> db_up env mx st'"
  unfolding CheckUserByEmail_def by (rule db_up_query)

lemma CreateUser_row:
  assumes "pg_conforms env data" and "clean username" and "clean password" and "clean email"
    and "CreateUser env username password email st = (Inr uid, st')" and "0 <s uid"
  shows "{x \<in> set (tb_user (data (snd st'))). us_id x = uid} =
    {\<lparr>us_id = uid, us_username = username, us_password = password, us_email = email\<rparr>}"
  using CreateUser_spec [OF assms(1-5)] assms(6) by (auto simp: word_sless_alt)

lemma Login_row:
  assumes conf: "pg_conforms (le_pg env) data" and up: "db_up (le_pg env) mx (lg_db L)"
    and row: "{x \<in> set (tb_user (tables_of data L)). us_id x = lq_uid q} = {y}"
    and "lq_token q = us_password y" and "us_password y \<noteq> []"
  shows "\<exists>reply L'. Login env q L = (Inr reply, L') \<and> lr_err_code reply = ERR_SUCCESS"
proof -
  obtain r db where c: "GetUserPassword (le_pg env) (lq_uid q) (lg_db L) = (r, db)" by (metis surj_pair)
  have y: "y \<in> set (tb_user (tables_of data L))" "us_id y = lq_uid q" and
    only: "\<And>x. x \<in> set (tb_user (tables_of data L)) \<Longrightarrow> us_id x = lq_uid q \<Longrightarrow> x = y"
    using row by auto
  from spec_read_up [OF GetUserPassword_read [OF conf] up, of "lq_uid q"] c obtain pw
    where r: "r = Inr pw" and "\<exists>x \<in> set (tb_user (tables_of data L)). us_id x = lq_uid q \<and> pw = us_password x"
    using y unfolding tables_of_def by (metis fst_conv)
  then have pw: "pw = us_password y" using only by blast
  obtain b rs where s: "Redis_Set (le_redis env) (session_key (lq_uid q)) gateway_addr (lg_redis L) = (b, rs)"
    by (metis surj_pair)
  show ?thesis using c s assms(4,5) by (simp add: Login_def r pw)
qed

text \<open>The handlers in a row: register, log in over HTTP, log in on the socket with the token.\<close>

lemma account_flow:
  assumes conf: "pg_conforms (le_pg env) data" and up: "db_up (le_pg env) mx (lg_db L)"
    and clean: "clean (rq_nickname q)" "clean (rq_password q)" "clean (rq_email q)"
    and new: "\<forall>x \<in> set (tb_user (tables_of data L)). us_email x \<noteq> rq_email q"
    and "rq_password q \<noteq> []"
  obtains (failed) L1 where "RegisterUser env q L = (Inr (RegisterRes_default\<lparr>rr_err_code := 1,
      rr_err_msg := ''create user failed''\<rparr>), L1)" "tables_of data L1 = tables_of data L"
  | (created) uid L1 L2 where "RegisterUser env q L = (Inr (RegisterRes_default\<lparr>rr_err_code := 0, rr_uid := uid\<rparr>), L1)"
      "0 <s uid"
      "HttpLogin env \<lparr>hq_email = rq_email q, hq_password = rq_password q\<rparr> L1 = (Inr (HttpLoginRes_default\<lparr>
         hr_uid := uid, hr_nickname := rq_nickname q, hr_token := rq_password q\<rparr>), L2)"
      "\<And>dev last. \<exists>reply L3. Login env \<lparr>lq_uid = uid, lq_token = rq_password q, lq_device_id = dev,
         lq_last_msg_id = last\<rparr> L2 = (Inr reply, L3) \<and> lr_err_code reply = ERR_SUCCESS"
proof -
  obtain r db where c: "CreateUser (le_pg env) (rq_nickname q) (rq_password q) (rq_email q) (lg_db L) = (r, db)"
    by (metis surj_pair)
  from created_login [OF conf up clean new [unfolded tables_of_def] c, where pw = "rq_password q"
      and info = HttpLoginRes_default]
  consider "r = Inr (-1)" "data (snd db) = tables_of data L"
    | uid where "r = Inr uid" "0 <s uid" "fst (CheckUserByEmail (le_pg env) (rq_email q) (rq_password q) HttpLoginRes_default db) =
        Inr (True, HttpLoginRes_default\<lparr>hr_uid := uid, hr_nickname := rq_nickname q, hr_token := rq_password q\<rparr>)"
    by (auto simp: tables_of_def)
  then show ?thesis
  proof cases
    case 1
    with c show ?thesis by (intro failed [of "L\<lparr>lg_db := db\<rparr>"]) (simp_all add: RegisterUser_def)
  next
    case (2 uid)
    let ?L1 = "L\<lparr>lg_db := db\<rparr>"
    let ?info = "HttpLoginRes_default\<lparr>hr_uid := uid, hr_nickname := rq_nickname q, hr_token := rq_password q\<rparr>"
    obtain db2 where check: "CheckUserByEmail (le_pg env) (rq_email q) (rq_password q) HttpLoginRes_default db =
        (Inr (True, ?info), db2)" using 2(3) by (metis eq_fst_iff)
    obtain b rs where set: "Redis_Set (le_redis env) (token_key uid) (rq_password q) (lg_redis L) = (b, rs)"
      by (metis surj_pair)
    let ?L2 = "L\<lparr>lg_db := db2, lg_redis := rs\<rparr>"
    have up2: "db_up (le_pg env) mx (lg_db ?L2)"
      using db_up_CheckUserByEmail [OF db_up_CreateUser [OF up c] check] by simp
    have "data (snd db2) = data (snd db)"
      using spec_read_data [OF CheckUserByEmail_read [where st = db and pw = "rq_password q" and
          info = HttpLoginRes_default, OF conf clean(3)]] check by simp
    with CreateUser_row [where st = "lg_db L" and uid = uid and st' = db, OF conf clean] c 2(1,2)
    have row: "{x \<in> set (tb_user (tables_of data ?L2)). us_id x = uid} =
        {\<lparr>us_id = uid, us_username = rq_nickname q, us_password = rq_password q, us_email = rq_email q\<rparr>}"
      by simp
    show ?thesis
    proof (rule created [of uid "?L1" "?L2"])
      show "RegisterUser env q L = (Inr (RegisterRes_default\<lparr>rr_err_code := 0, rr_uid := uid\<rparr>), ?L1)"
        using c 2(1,2) by (simp add: RegisterUser_def)
      show "HttpLogin env \<lparr>hq_email = rq_email q, hq_password = rq_password q\<rparr> ?L1 = (Inr ?info, ?L2)"
        using check set by (simp add: HttpLogin_def HttpLoginRes_default_def)
      show "\<exists>reply L3. Login env \<lparr>lq_uid = uid, lq_token = rq_password q, lq_device_id = dev,
         lq_last_msg_id = last\<rparr> ?L2 = (Inr reply, L3) \<and> lr_err_code reply = ERR_SUCCESS" for dev last
        by (rule Login_row [OF conf up2, where y = "\<lparr>us_id = uid, us_username = rq_nickname q,
            us_password = rq_password q, us_email = rq_email q\<rparr>"]) (use row assms(7) in simp_all)
    qed (rule 2(2))
  qed
qed

definition registered_json :: "('j, 'l) http_env \<Rightarrow> i64 \<Rightarrow> 'j" where
  "registered_json env uid =
     j_set env ''uid'' (j_int env (sint uid)) (j_set env ''msg'' (j_string env msg_registered)
       (j_set env ''code'' (j_int env 200) (j_null env)))"

definition logged_in_json :: "('j, 'l) http_env \<Rightarrow> i64 \<Rightarrow> string \<Rightarrow> 'j \<Rightarrow> string \<Rightarrow> 'j" where
  "logged_in_json env uid nickname email token =
     j_set env ''userInfo''
       (j_object env [(''id'', j_int env (sint uid)), (''nickname'', j_string env nickname),
                      (''email'', email), (''avatar'', j_string env [])])
       (j_set env ''token'' (j_string env token) (j_set env ''msg'' (j_string env msg_logged_in)
         (j_set env ''code'' (j_int env 200) (j_null env))))"

text \<open>
  C8: a client that registers over HTTP with an unused e-mail is answered either code 500, and
  nothing has changed, or code 200 with its number. Then a login over HTTP with the same e-mail
  and password is answered code 200 with this number, the nickname and a token, and with that
  number and token the login on the WebSocket succeeds. The token is the password.
\<close>

theorem account_over_http:
  assumes conf: "pg_conforms (le_pg le) data" and up: "db_up (le_pg le) mx (lg_db L)"
    and b1: "register_request env b1 = Some q"
    and b2: "login_request env b2 = Some (\<lparr>hq_email = rq_email q, hq_password = rq_password q\<rparr>, j)"
    and j: "j_at env j ''email'' = Some (email, j')"
    and clean: "clean (rq_nickname q)" "clean (rq_password q)" "clean (rq_email q)"
    and new: "\<forall>x \<in> set (tb_user (tables_of data L)). us_email x \<noteq> rq_email q" and "rq_password q \<noteq> []"
  shows "(\<exists>L1. register_answer (wire_http le env) b1 L =
        (json_answer env (json_failed env ''create user failed''), L1) \<and> tables_of data L1 = tables_of data L) \<or>
    (\<exists>uid L1 L2. 0 <s uid \<and>
       register_answer (wire_http le env) b1 L = (json_answer env (registered_json env uid), L1) \<and>
       login_answer (wire_http le env) b2 L1 =
         (json_answer env (logged_in_json env uid (rq_nickname q) email (rq_password q)), L2) \<and>
       (\<forall>dev last. \<exists>reply L3. Login le \<lparr>lq_uid = uid, lq_token = rq_password q, lq_device_id = dev,
          lq_last_msg_id = last\<rparr> L2 = (Inr reply, L3) \<and> lr_err_code reply = ERR_SUCCESS))"
proof (rule account_flow [OF conf up clean new assms(10)])
  fix L1
  assume "RegisterUser le q L = (Inr (RegisterRes_default\<lparr>rr_err_code := 1,
      rr_err_msg := ''create user failed''\<rparr>), L1)" and same: "tables_of data L1 = tables_of data L"
  then have "register_answer (wire_http le env) b1 L = (json_answer env (json_failed env ''create user failed''), L1)"
    by (simp add: register_answer_def wire_http_def request_ignores_stub b1 http_stub_def)
      (simp add: register_reply_def)
  with same show ?thesis by blast
next
  fix uid L1 L2
  assume r: "RegisterUser le q L = (Inr (RegisterRes_default\<lparr>rr_err_code := 0, rr_uid := uid\<rparr>), L1)"
    and pos: "0 <s uid"
    and l: "HttpLogin le \<lparr>hq_email = rq_email q, hq_password = rq_password q\<rparr> L1 = (Inr (HttpLoginRes_default\<lparr>
         hr_uid := uid, hr_nickname := rq_nickname q, hr_token := rq_password q\<rparr>), L2)"
    and w: "\<And>dev last. \<exists>reply L3. Login le \<lparr>lq_uid = uid, lq_token = rq_password q, lq_device_id = dev,
         lq_last_msg_id = last\<rparr> L2 = (Inr reply, L3) \<and> lr_err_code reply = ERR_SUCCESS"
  have "register_answer (wire_http le env) b1 L = (json_answer env (registered_json env uid), L1)"
    using r by (simp add: register_answer_def wire_http_def request_ignores_stub b1 http_stub_def)
      (simp add: register_reply_def registered_json_def)
  moreover have "login_answer (wire_http le env) b2 L1 =
      (json_answer env (logged_in_json env uid (rq_nickname q) email (rq_password q)), L2)"
    using l by (simp add: login_answer_def wire_http_def request_ignores_stub b2 http_stub_def
        login_reply_def HttpLoginRes_default_def j logged_in_json_def)
  ultimately show ?thesis using pos w by blast
qed

section \<open>A small instance\<close>

text \<open>JSON values, and a parser that knows the two documents of the example.\<close>

datatype mini_json = JNull | JInt int | JString string | JObject "(string \<times> mini_json) list"

fun mini_show :: "mini_json \<Rightarrow> string" and mini_fields :: "(string \<times> mini_json) list \<Rightarrow> string" where
  "mini_show JNull = ''null''"
| "mini_show (JInt i) = to_string (word_of_int i :: i64)"
| "mini_show (JString s) = QUOTE # s @ [QUOTE]"
| "mini_show (JObject kvs) = ''{'' @ mini_fields kvs @ ''}''"
| "mini_fields [] = []"
| "mini_fields ((k, v) # kvs) = QUOTE # k @ [QUOTE] @ '':'' @ mini_show v @ '','' @ mini_fields kvs"

definition mini_env :: "(mini_json, (tables, string \<rightharpoonup> string, string list, nat) logic) http_env" where
  "mini_env =
     \<lparr>j_parse = (\<lambda>b.
        if b = ''register'' then Some (JObject [(''email'', JString ''c@x''), (''nickname'', JString ''cat''),
          (''password'', JString ''pw'')])
        else if b = ''login'' then Some (JObject [(''email'', JString ''c@x''), (''password'', JString ''pw'')])
        else None),
      j_at = (\<lambda>v k. case v of
          JObject kvs \<Rightarrow> (case map_of kvs k of Some x \<Rightarrow> Some (x, v) | None \<Rightarrow> Some (JNull, JObject ((k, JNull) # kvs)))
        | JNull \<Rightarrow> Some (JNull, JObject [(k, JNull)])
        | _ \<Rightarrow> None),
      j_get_string = (\<lambda>v. case v of JString s \<Rightarrow> Some s | _ \<Rightarrow> None),
      j_null = JNull,
      j_set = (\<lambda>k x v. case v of JObject kvs \<Rightarrow> JObject (filter (\<lambda>kv. fst kv \<noteq> k) kvs @ [(k, x)])
        | _ \<Rightarrow> JObject [(k, x)]),
      j_object = JObject, j_int = JInt, j_string = JString, j_dump = (\<lambda>v. Some (mini_show v)),
      he_register = (\<lambda>q l. ((False, RegisterRes_default), l)),
      he_login = (\<lambda>q l. ((False, HttpLoginRes_default), l))\<rparr>"

definition mini_account :: mini_json where
  "mini_account = JObject [(''email'', JString ''c@x''), (''password'', JString ''pw'')]"

lemma mini_requests:
  "register_request mini_env ''register'' = Some \<lparr>rq_email = ''c@x'', rq_nickname = ''cat'', rq_password = ''pw''\<rparr>"
  "login_request mini_env ''login'' = Some (\<lparr>hq_email = ''c@x'', hq_password = ''pw''\<rparr>, mini_account)"
  "j_at mini_env mini_account ''email'' = Some (JString ''c@x'', mini_account)"
  by (simp_all add: register_request_def login_request_def json_field_def mini_env_def mini_account_def)

theorem account_over_http_witness:
  "\<exists>uid L1 L2. register_answer (wire_http mem_env mini_env) ''register'' (mem_server two_users) =
       (json_answer mini_env (registered_json mini_env uid), L1) \<and>
     login_answer (wire_http mem_env mini_env) ''login'' L1 =
       (json_answer mini_env (logged_in_json mini_env uid ''cat'' (JString ''c@x'') ''pw''), L2)"
proof -
  let ?q = "\<lparr>rq_email = ''c@x'', rq_nickname = ''cat'', rq_password = ''pw''\<rparr>" and ?L = "mem_server two_users"
  obtain st1 where create: "CreateUser mem_pg ''cat'' ''pw'' ''c@x'' (mem_pool, two_users) = (Inr 3, st1)"
    using create_example by blast
  have clean: "clean (rq_nickname ?q)" "clean (rq_password ?q)" "clean (rq_email ?q)"
    by (simp_all add: clean_def quote_free_def NUL_def)
  have conf: "pg_conforms (le_pg mem_env) (\<lambda>t. t)" and up: "db_up (le_pg mem_env) 20 (lg_db ?L)"
    by (simp_all add: mem_pg_conforms mem_pg_up)
  have "{x \<in> set (tb_user (snd st1)). us_id x = 3} \<noteq> {}"
    using CreateUser_row [OF mem_pg_conforms, of "''cat''" "''pw''" "''c@x''" "(mem_pool, two_users)" 3 st1]
      clean create by (simp add: word_sless_alt)
  then have changed: "snd st1 \<noteq> two_users" by (auto simp: two_users_def)
  have "snd (register_answer (wire_http mem_env mini_env) ''register'' ?L) = ?L\<lparr>lg_db := st1\<rparr>"
    using create by (simp add: register_answer_def wire_http_def request_ignores_stub mini_requests http_stub_def
        RegisterUser_def word_sless_alt)
  then have "tables_of (\<lambda>t. t) L1 \<noteq> tables_of (\<lambda>t. t) ?L"
    if "register_answer (wire_http mem_env mini_env) ''register'' ?L = (a, L1)" for a L1
    using that changed by (auto simp: tables_of_def)
  moreover have "\<forall>x \<in> set (tb_user (tables_of (\<lambda>t. t) ?L)). us_email x \<noteq> rq_email ?q" "rq_password ?q \<noteq> []"
    by (simp_all add: tables_of_def two_users_def)
  moreover note account_over_http [OF conf up, where env = mini_env and q = ?q, OF mini_requests(1) _
      mini_requests(3) clean, of "''login''"]
  ultimately show ?thesis by (simp add: mini_requests(2)) blast
qed

text \<open>A gateway with user 1 on socket 0 and user 2 on socket 1, in front of the example server.\<close>

definition chat_env :: "(tables, string \<rightharpoonup> string, string list, nat) logic gateway_env" where
  "chat_env =
     \<lparr>ge_endian = Little, ge_parse_login = (\<lambda>b. None),
      ge_parse_send = (\<lambda>b. Some \<lparr>sq_msg = ChatMsg_default\<lparr>cm_from_uid := 9, cm_to_uid := 2, cm_content := ''yo''\<rparr>\<rparr>),
      ge_parse_sync = (\<lambda>b. Some \<lparr>yq_uid = 9, yq_last_msg_id = 0\<rparr>),
      ge_parse_upload = (\<lambda>b. None),
      ge_ser_login = (\<lambda>_. []), ge_ser_send = (\<lambda>_. []),
      ge_ser_sync = (\<lambda>res. concat (map (\<lambda>m. map of_char (cm_content m)) (yr_msgs res))),
      ge_ser_upload = (\<lambda>_. []),
      ge_login = (\<lambda>q l. (None, l)), ge_send = (\<lambda>q l. (None, l)), ge_sync = (\<lambda>q l. (None, l)),
      ge_upload = (\<lambda>q l. (None, l))\<rparr>"

definition chat_gateway :: "(tables, string \<rightharpoonup> string, string list, nat) logic gateway" where
  "chat_gateway = \<lparr>gw_sockets = [0 \<mapsto> 1, 1 \<mapsto> 2], gw_sessions = [1 \<mapsto> 0, 2 \<mapsto> 1], gw_sent = [],
     gw_logic = mem_server two_friends\<rparr>"

theorem message_reaches_friend_witness:
  "\<exists>G1 f1. ws_message (wire mem_env chat_env) 0 (demo_packet 3 0) OP_BINARY chat_gateway = Some G1 \<and>
     gw_sent G1 = [(0, f1)] \<and>
     (tables_of (\<lambda>t. t) (gw_logic G1) = two_friends \<or>
      (\<exists>G2 hd res. ws_message (wire mem_env chat_env) 1 (demo_packet 6 0) OP_BINARY G1 = Some G2 \<and>
         gw_sent G2 = gw_sent G1 @ [(1, hd @ ge_ser_sync chat_env res)] \<and>
         (\<exists>m \<in> set (yr_msgs res). cm_from_uid m = 1 \<and> cm_to_uid m = 2 \<and> cm_content m = ''yo'')))"
proof -
  let ?req = "\<lparr>sq_msg = ChatMsg_default\<lparr>cm_from_uid := 9, cm_to_uid := 2, cm_content := ''yo''\<rparr>\<rparr>"
  have p: "is_packet (ge_endian chat_env) 0x1003 (demo_header 0x1003) (demo_packet 3 0)"
    "is_packet (ge_endian chat_env) 0x1006 (demo_header 0x1006) (demo_packet 6 0)"
    by (simp_all add: is_packet_def chat_env_def)
  have parse: "ge_parse_send chat_env (drop HEADER_LEN (demo_packet 3 0)) = Some ?req"
    "ge_parse_sync chat_env (drop HEADER_LEN (demo_packet 6 0)) = Some \<lparr>yq_uid = 9, yq_last_msg_id = 0\<rparr>"
    by (simp_all add: chat_env_def)
  have conf: "pg_conforms (le_pg mem_env) (\<lambda>t. t)" and up: "db_up (le_pg mem_env) 20 (lg_db (gw_logic chat_gateway))"
    by (simp_all add: mem_pg_conforms mem_pg_up chat_gateway_def)
  have sockets: "gw_sockets chat_gateway 0 = Some 1" "(1 :: i64) \<noteq> 0" "gw_sockets chat_gateway 1 = Some 2"
    by (simp_all add: chat_gateway_def)
  have tables: "tables_of (\<lambda>t. t) (gw_logic chat_gateway) = two_friends"
    by (simp add: chat_gateway_def tables_of_def)
  have "friend_of two_friends 1 2" and "tb_msg two_friends = []"
    by (simp_all add: two_friends_def two_users_def no_tables_def)
  moreover have "clean (cm_content (sq_msg ?req))" by (simp add: clean_def quote_free_def NUL_def)
  moreover have "gw_sent chat_gateway = []" by (simp add: chat_gateway_def)
  moreover note message_reaches_friend [OF conf up sockets p(1) parse(1) _ _ _ _ p(2) parse(2)]
  ultimately show ?thesis unfolding tables by simp blast
qed

end
