(* ===== verification/Chat_Threads.thy ===== *)
theory Chat_Threads
  imports Chat_Service
begin

text \<open>
  The handlers of the logic server on several gRPC threads. A \<open>task\<close> is what a handler still
  has to do with the connection pool and the database, one action at a time: acquire a
  connection, read the clock, send a statement (its text, as the code pastes it together), clear
  a result, release the connection. \<open>task_of\<close> gives the actions of each handler in the order of
  its code, and \<open>handler_task_equiv\<close> shows that performing them without interruption is the
  handler of \<open>Logic_Server\<close>.

  \<open>threads_step\<close> lets any number of threads perform their actions in any interleaving: no handler
  opens a transaction, so other handlers may act between any two statements, and the pool is
  used through the steps of \<open>Conn_Pool\<close>, so they may act inside \<open>Acquire\<close> too.
\<close>

section \<open>Tasks\<close>

text \<open>
  \<open>Stamp\<close> is \<open>system_clock::now()\<close>, which numbers the messages, \<open>Clock\<close> is \<open>time(nullptr)\<close>.
\<close>

datatype task =
    Finished
  | Acquire "conn option \<Rightarrow> task"
  | Clock "i64 \<Rightarrow> task"
  | Stamp "i64 \<Rightarrow> task"
  | Query conn string "pg_result \<Rightarrow> task"
  | Clear pg_result task
  | Release conn task

text \<open>
  The shape of the client's functions with the rest \<open>k\<close> of the handler as continuation:
  \<open>ask\<close> sends a statement and reads its result, which stays uncleared when reading throws;
  \<open>guarded\<close> is the scope of a guard.
\<close>

definition ask ::
  "conn \<Rightarrow> string \<Rightarrow> (pg_result \<Rightarrow> 'a throws) \<Rightarrow> ('a throws \<Rightarrow> task) \<Rightarrow> task" where
  "ask c sql read k = Query c (c_str sql) (\<lambda>res.
     case read res of
       Inl e \<Rightarrow> k (Inl e)
     | Inr x \<Rightarrow> Clear res (k (Inr x)))"

definition guarded ::
  "'a \<Rightarrow> (conn \<Rightarrow> ('a throws \<Rightarrow> task) \<Rightarrow> task) \<Rightarrow> ('a throws \<Rightarrow> task) \<Rightarrow> task" where
  "guarded dflt body k = Acquire (\<lambda>g.
     case g of
       None \<Rightarrow> k (Inr dflt)
     | Some c \<Rightarrow> body c (\<lambda>r. Release c (k r)))"

definition query_task ::
  "'a \<Rightarrow> string \<Rightarrow> (pg_result \<Rightarrow> 'a throws) \<Rightarrow> ('a throws \<Rightarrow> task) \<Rightarrow> task" where
  "query_task dflt sql read = guarded dflt (\<lambda>c. ask c sql read)"

definition timed_task ::
  "'a \<Rightarrow> (i64 \<Rightarrow> string) \<Rightarrow> (pg_result \<Rightarrow> 'a throws) \<Rightarrow> ('a throws \<Rightarrow> task) \<Rightarrow> task" where
  "timed_task dflt sql read = guarded dflt (\<lambda>c k. Clock (\<lambda>now. ask c (sql now) read k))"

section \<open>The functions of the client as tasks\<close>

definition read_password :: "pg_result \<Rightarrow> string throws" where
  "read_password res =
     (if PQresultStatus res \<noteq> PGRES_TUPLES_OK then Inr []
      else if 0 < PQntuples res then get_text res 0 0 else Inr [])"

definition read_rows :: "(pg_result \<Rightarrow> nat \<Rightarrow> 'a throws) \<Rightarrow> pg_result \<Rightarrow> 'a list throws" where
  "read_rows row res =
     (if PQresultStatus res = PGRES_TUPLES_OK then emap (row res) [0..<PQntuples res] else Inr [])"

definition read_new_id :: "pg_result \<Rightarrow> i64 throws" where
  "read_new_id res = (if PQresultStatus res \<noteq> PGRES_TUPLES_OK then Inr (-1) else get_int64 res 0 0)"

definition read_account ::
  "string \<Rightarrow> HttpLoginRes \<Rightarrow> pg_result \<Rightarrow> (bool \<times> HttpLoginRes) throws" where
  "read_account password user_info res =
     (if PQresultStatus res \<noteq> PGRES_TUPLES_OK \<or> PQntuples res = 0 then Inr (False, user_info)
      else ebind (get_text res 0 2) (\<lambda>db_pass.
        if db_pass \<noteq> password then Inr (False, user_info)
        else ebind (get_int64 res 0 0) (\<lambda>uid.
             ebind (get_text res 0 1) (\<lambda>nickname.
               Inr (True, user_info\<lparr>hr_uid := uid, hr_nickname := nickname, hr_token := db_pass\<rparr>)))))"

definition read_request_id :: "i64 \<Rightarrow> pg_result \<Rightarrow> (bool \<times> i64) throws" where
  "read_request_id out_req_id res =
     (if PQresultStatus res \<noteq> PGRES_TUPLES_OK then Inr (False, out_req_id)
      else ebind (get_int64 res 0 0) (\<lambda>req_id. Inr (True, req_id)))"

definition has_row :: "pg_result \<Rightarrow> bool" where
  "has_row res \<longleftrightarrow> PQresultStatus res = PGRES_TUPLES_OK \<and> 0 < PQntuples res"

text \<open>
  The two inserts of an acceptance and, when both have succeeded, the update of the request; then
  the whole function, on one connection.
\<close>

definition befriend_task :: "conn \<Rightarrow> i64 \<Rightarrow> i64 \<Rightarrow> i64 \<Rightarrow> (bool throws \<Rightarrow> task) \<Rightarrow> task" where
  "befriend_task c req_id from_uid to_uid k =
     Clock (\<lambda>now.
     Query c (c_str (sql_InsertFriend from_uid to_uid now)) (\<lambda>r1.
     Query c (c_str (sql_InsertFriend to_uid from_uid now)) (\<lambda>r2.
     Clear r1 (Clear r2
       (if PQresultStatus r1 \<noteq> PGRES_COMMAND_OK \<or> PQresultStatus r2 \<noteq> PGRES_COMMAND_OK
        then k (Inr False)
        else ask c (sql_AcceptRequest req_id) (\<lambda>res. Inr True) k)))))"

definition accept_task :: "i64 \<Rightarrow> (bool throws \<Rightarrow> task) \<Rightarrow> task" where
  "accept_task req_id = guarded False (\<lambda>c k.
     ask c (sql_SelectRequest req_id) accept_find (\<lambda>r.
       case r of
         Inl e \<Rightarrow> k (Inl e)
       | Inr None \<Rightarrow> k (Inr False)
       | Inr (Some (from_uid, to_uid)) \<Rightarrow> befriend_task c req_id from_uid to_uid k))"

section \<open>The handlers as tasks\<close>

text \<open>
  What a handler does after its last call of the database client does not concern the pool. An
  exception ends the handler.
\<close>

definition send_task :: "ChatMsg \<Rightarrow> task" where
  "send_task msg =
     query_task False (sql_AreFriends (cm_from_uid msg) (cm_to_uid msg)) (\<lambda>res. Inr (has_row res)) (\<lambda>r.
       case r of
         Inl e \<Rightarrow> Finished
       | Inr friends \<Rightarrow>
           if \<not> friends then Finished
           else Stamp (\<lambda>msg_id.
             timed_task False
               (sql_SaveMessage (to_string msg_id) (cm_from_uid msg) (cm_to_uid msg) (cm_content msg))
               command_ok (\<lambda>_. Finished)))"

fun task_of :: "logic_req \<Rightarrow> task" where
  "task_of (Rpc_Login q) = query_task [] (sql_GetUserPassword (lq_uid q)) read_password (\<lambda>_. Finished)"
| "task_of (Rpc_SendMsg q) = send_task (sq_msg q)"
| "task_of (Rpc_SyncMsg q) =
     query_task [] (sql_GetofflineMsgs (yq_uid q) (yq_last_msg_id q)) (read_rows offline_row) (\<lambda>_. Finished)"
| "task_of (Rpc_RegisterUser q) =
     query_task (-1) (sql_CreateUser (rq_nickname q) (rq_password q) (rq_email q)) read_new_id (\<lambda>_. Finished)"
| "task_of (Rpc_HttpLogin q) =
     query_task (False, HttpLoginRes_default) (sql_CheckUserByEmail (hq_email q))
       (read_account (hq_password q) HttpLoginRes_default) (\<lambda>_. Finished)"
| "task_of (Rpc_GetUploadUrl q) = Finished"
| "task_of (Rpc_SendFriendRequest q) =
     timed_task (False, 0) (sql_CreateFriendRequest (fq_from_uid q) (fq_to_uid q) (fq_reason q))
       (read_request_id 0) (\<lambda>_. Finished)"
| "task_of (Rpc_RespondFriendRequest q) =
     (if pq_accept q then accept_task (pq_req_id q) (\<lambda>_. Finished)
      else query_task False (sql_RejectRequest (pq_req_id q)) command_ok (\<lambda>_. Finished))"
| "task_of (Rpc_ListFriends q) =
     query_task [] (sql_ListFriends (gq_uid q)) (read_rows (\<lambda>res i. get_int64 res i 0)) (\<lambda>_. Finished)"
| "task_of (Rpc_GetFriendRequests q) =
     query_task [] (sql_GetFriendRequestsForUser (jq_uid q)) (read_rows friend_request_row) (\<lambda>_. Finished)"

section \<open>A handler that runs alone\<close>

text \<open>\<open>stamp\<close> is the number the clock of the process gives to a message.\<close>

primrec run_alone :: "'d pg_env \<Rightarrow> i64 \<Rightarrow> task \<Rightarrow> 'd db_st \<Rightarrow> 'd db_st" where
  "run_alone env stamp Finished = (\<lambda>st. st)"
| "run_alone env stamp (Acquire k) =
     (\<lambda>st. case DbPool_Acquire env st of (g, st') \<Rightarrow> run_alone env stamp (k g) st')"
| "run_alone env stamp (Clock k) = (\<lambda>st. run_alone env stamp (k (pg_time env (snd st))) st)"
| "run_alone env stamp (Stamp k) = (\<lambda>st. run_alone env stamp (k stamp) st)"
| "run_alone env stamp (Query c q k) =
     (\<lambda>st. case pq_exec env c q (snd st) of (res, d) \<Rightarrow> run_alone env stamp (k res) (fst st, d))"
| "run_alone env stamp (Clear res t) =
     (\<lambda>st. run_alone env stamp t (fst st, PQclear env res (snd st)))"
| "run_alone env stamp (Release c t) = (\<lambda>st. run_alone env stamp t (DbPool_Release env c st))"

lemma run_ask:
  "run_alone env stamp (ask c (sql (snd st)) read k) st =
     (case with_result env sql read c st of (r, st') \<Rightarrow> run_alone env stamp (k r) st')"
  by (auto simp: ask_def with_result_def split: prod.split sum.split)

lemma run_guarded:
  assumes "\<And>c k st. run_alone env stamp (body c k) st =
     (case call c st of (r, st') \<Rightarrow> run_alone env stamp (k r) st')"
  shows "run_alone env stamp (guarded dflt body k) st =
     (case with_guard (DbPool_Acquire env) (DbPool_Release env) (Inr dflt) call st of
        (r, st') \<Rightarrow> run_alone env stamp (k r) st')"
  by (auto simp: guarded_def with_guard_def assms split: prod.split option.split)

lemma run_query_task:
  "run_alone env stamp (query_task dflt sql read k) st =
     (case db_query env dflt (\<lambda>d. sql) read st of (r, st') \<Rightarrow> run_alone env stamp (k r) st')"
  unfolding query_task_def db_query_def by (rule run_guarded) (rule run_ask [where sql = "\<lambda>d. sql"])

lemma run_timed_task:
  "run_alone env stamp (timed_task dflt sql read k) st =
     (case db_query env dflt (\<lambda>d. sql (pg_time env d)) read st of (r, st') \<Rightarrow> run_alone env stamp (k r) st')"
  unfolding timed_task_def db_query_def
  by (rule run_guarded) (simp add: run_ask [where sql = "\<lambda>d. sql (pg_time env d)", symmetric])

lemma run_befriend_task:
  "run_alone env stamp (befriend_task c req u v k) st =
     (case accept_insert env u v c st of
        (False, st') \<Rightarrow> run_alone env stamp (k (Inr False)) st'
      | (True, st') \<Rightarrow>
          (case with_result env (\<lambda>d. sql_AcceptRequest req) (\<lambda>res. Inr True) c st' of
             (r, st'') \<Rightarrow> run_alone env stamp (k r) st''))"
  by (auto simp: befriend_task_def accept_insert_def Let_def run_ask [where sql = "\<lambda>d. sql_AcceptRequest req"]
      split: prod.split)

lemma run_accept_task:
  "run_alone env stamp (accept_task req k) st =
     (case AcceptFriendRequest env req st of (r, st') \<Rightarrow> run_alone env stamp (k r) st')"
  unfolding accept_task_def AcceptFriendRequest_def
  by (rule run_guarded)
    (auto simp: run_ask [where sql = "\<lambda>d. sql_SelectRequest req"] run_befriend_task accept_body_def
      split: prod.split sum.split option.split bool.split)

text \<open>The functions of the client are these calls.\<close>

lemma client_calls:
  "GetUserPassword env uid = db_query env [] (\<lambda>d. sql_GetUserPassword uid) read_password"
  "GetofflineMsgs env uid since = db_query env [] (\<lambda>d. sql_GetofflineMsgs uid since) (read_rows offline_row)"
  "CreateUser env u p e = db_query env (-1) (\<lambda>d. sql_CreateUser u p e) read_new_id"
  "CheckUserByEmail env e p info = db_query env (False, info) (\<lambda>d. sql_CheckUserByEmail e) (read_account p info)"
  "CreateFriendRequest env f t r out = db_query env (False, out)
     (\<lambda>d. sql_CreateFriendRequest f t r (pg_time env d)) (read_request_id out)"
  "GetFriendRequestsForUser env uid = db_query env [] (\<lambda>d. sql_GetFriendRequestsForUser uid)
     (read_rows friend_request_row)"
  "AreFriends env f t = db_query env False (\<lambda>d. sql_AreFriends f t) (\<lambda>res. Inr (has_row res))"
  "ListFriends env uid = db_query env [] (\<lambda>d. sql_ListFriends uid) (read_rows (\<lambda>res i. get_int64 res i 0))"
  unfolding db_call_defs
  by (rule arg_cong [where f = "db_query _ _ _"],
      simp add: fun_eq_iff read_password_def read_rows_def read_new_id_def read_account_def
        read_request_id_def has_row_def)+

text \<open>The rest of a handler after its last call leaves the database as the call left it.\<close>

lemma last_call:
  assumes "\<And>x L. lg_db (snd (k x L)) = lg_db L"
  shows "(case call (lg_db L) of (r, st) \<Rightarrow> run_alone env stamp Finished st) = lg_db (snd (db_do call k L))"
  by (rule db_do_cases [of call L k]) (simp_all add: assms)

lemma redis_do_db:
  "(\<And>x L. lg_db (snd (k x L)) = lg_db L) \<Longrightarrow> lg_db (snd (redis_do call k L)) = lg_db L"
  by (rule redis_do_cases [of call L k]) simp

lemma route_msg_db: "lg_db (snd (route_msg env m i L)) = lg_db L"
  using route_msg_reply [of env m i L] by auto

lemma send_task_db:
  "run_alone (le_pg env) (le_now env (lg_world L)) (send_task (sq_msg q)) (lg_db L) = lg_db (snd (SendMsg env q L))"
proof -
  let ?m = "sq_msg q"
  obtain r st where a: "AreFriends (le_pg env) (cm_from_uid ?m) (cm_to_uid ?m) (lg_db L) = (r, st)"
    by (metis surj_pair)
  have store: "(case SaveMessage (le_pg env) (to_string i) (cm_from_uid ?m) (cm_to_uid ?m) (cm_content ?m) st of
      (r, st') \<Rightarrow> run_alone (le_pg env) stamp Finished st') = lg_db (snd (store_msg env ?m (L\<lparr>lg_db := st\<rparr>)))"
    if "i = le_now env (lg_world L)" for i stamp
    using last_call [where L = "L\<lparr>lg_db := st\<rparr>" and call = "SaveMessage (le_pg env) (to_string i)
      (cm_from_uid ?m) (cm_to_uid ?m) (cm_content ?m)" and k = "\<lambda>saved. route_msg env ?m i", OF route_msg_db] that
    by (simp add: store_msg_def Let_def)
  show ?thesis
  proof (cases r)
    case (Inl e)
    with a show ?thesis
      by (simp add: send_task_def SendMsg_def Let_def run_query_task client_calls [symmetric])
  next
    case (Inr friends)
    with a store show ?thesis
      by (simp add: send_task_def SendMsg_def Let_def run_query_task run_timed_task
          client_calls [symmetric] SaveMessage_def [symmetric])
  qed
qed

lemma calls_db:
  fixes env :: "('d, 'r, 'n, 'g) logic_env" and L :: "('d, 'r, 'n, 'g) logic"
  shows "run_alone (le_pg env) stamp (task_of (Rpc_Login q1)) (lg_db L) = lg_db (snd (Login env q1 L))"
    and "run_alone (le_pg env) stamp (task_of (Rpc_SyncMsg q2)) (lg_db L) = lg_db (snd (SyncMsg env q2 L))"
    and "run_alone (le_pg env) stamp (task_of (Rpc_RegisterUser q3)) (lg_db L) = lg_db (snd (RegisterUser env q3 L))"
    and "run_alone (le_pg env) stamp (task_of (Rpc_HttpLogin q4)) (lg_db L) = lg_db (snd (HttpLogin env q4 L))"
    and "run_alone (le_pg env) stamp (task_of (Rpc_SendFriendRequest q5)) (lg_db L) =
      lg_db (snd (SendFriendRequest env q5 L))"
    and "run_alone (le_pg env) stamp (task_of (Rpc_RespondFriendRequest q6)) (lg_db L) =
      lg_db (snd (RespondFriendRequest env q6 L))"
    and "run_alone (le_pg env) stamp (task_of (Rpc_ListFriends q7)) (lg_db L) =
      lg_db (snd (ListFriendsHandler env q7 L))"
    and "run_alone (le_pg env) stamp (task_of (Rpc_GetFriendRequests q8)) (lg_db L) =
      lg_db (snd (GetFriendRequests env q8 L))"
proof -
  show "run_alone (le_pg env) stamp (task_of (Rpc_Login q1)) (lg_db L) = lg_db (snd (Login env q1 L))"
    unfolding Login_def task_of.simps run_query_task client_calls [symmetric]
    by (rule last_call) (simp add: redis_do_db)
  show "run_alone (le_pg env) stamp (task_of (Rpc_SyncMsg q2)) (lg_db L) = lg_db (snd (SyncMsg env q2 L))"
    unfolding SyncMsg_def task_of.simps run_query_task client_calls [symmetric]
    by (rule last_call) simp
  show "run_alone (le_pg env) stamp (task_of (Rpc_RegisterUser q3)) (lg_db L) = lg_db (snd (RegisterUser env q3 L))"
    unfolding RegisterUser_def task_of.simps run_query_task client_calls [symmetric]
    by (rule last_call) simp
  show "run_alone (le_pg env) stamp (task_of (Rpc_HttpLogin q4)) (lg_db L) = lg_db (snd (HttpLogin env q4 L))"
    unfolding HttpLogin_def task_of.simps run_query_task client_calls [symmetric]
    by (rule last_call) (simp add: redis_do_db split: prod.split)
  show "run_alone (le_pg env) stamp (task_of (Rpc_SendFriendRequest q5)) (lg_db L) =
      lg_db (snd (SendFriendRequest env q5 L))"
    unfolding SendFriendRequest_def task_of.simps run_timed_task client_calls [symmetric]
    by (rule last_call) (simp split: prod.split)
  show "run_alone (le_pg env) stamp (task_of (Rpc_RespondFriendRequest q6)) (lg_db L) =
      lg_db (snd (RespondFriendRequest env q6 L))"
  proof (cases "pq_accept q6")
    case True
    then show ?thesis
      unfolding RespondFriendRequest_def task_of.simps if_P [OF True] run_accept_task
      by (intro last_call) simp
  next
    case False
    then show ?thesis
      unfolding RespondFriendRequest_def task_of.simps if_not_P [OF False] run_query_task Execute_def [symmetric]
      by (intro last_call) simp
  qed
  show "run_alone (le_pg env) stamp (task_of (Rpc_ListFriends q7)) (lg_db L) = lg_db (snd (ListFriendsHandler env q7 L))"
    unfolding ListFriendsHandler_def task_of.simps run_query_task client_calls [symmetric]
    by (rule last_call) simp
  show "run_alone (le_pg env) stamp (task_of (Rpc_GetFriendRequests q8)) (lg_db L) =
      lg_db (snd (GetFriendRequests env q8 L))"
    unfolding GetFriendRequests_def task_of.simps run_query_task client_calls [symmetric]
    by (rule last_call) simp
qed

lemma task_of_db:
  assumes "run_request env req L = Some L'"
  shows "run_alone (le_pg env) (le_now env (lg_world L)) (task_of req) (lg_db L) = lg_db L'"
proof (cases req)
  case (Rpc_SendMsg q)
  with assms show ?thesis by (auto simp: send_task_db)
next
  case (Rpc_GetUploadUrl q)
  with assms show ?thesis
    by (auto simp: GetUploadUrl_def Let_def split: option.splits prod.splits if_splits)
qed (use assms calls_db [of env "le_now env (lg_world L)" _ L] in \<open>auto simp del: task_of.simps\<close>)

text \<open>
  C5: the task of a request is what its handler does: performed without interruption, from any
  state of the pool and against any database and whatever fails or throws, its actions lead to
  exactly the pool and the database in which the handler ends, with the same statements sent in the
  same order on the same connection.
\<close>

theorem handler_task_equiv:
  assumes "run_request env req L = Some L'"
  shows "run_alone (le_pg env) (le_now env (lg_world L)) (task_of req) (lg_db L) = lg_db L'"
  by (rule task_of_db [OF assms])

theorem handler_task_equiv_witness:
  "\<exists>L'. run_request mem_env (Rpc_RespondFriendRequest \<lparr>pq_req_id = 5, pq_accept = True\<rparr>)
       (mem_server two_users) = Some L' \<and>
     run_alone mem_pg 1700000000000000000 (accept_task 5 (\<lambda>_. Finished)) (mem_pool, two_users) = lg_db L'"
proof -
  let ?req = "Rpc_RespondFriendRequest \<lparr>pq_req_id = 5, pq_accept = True\<rparr>"
  obtain L' where run: "run_request mem_env ?req (mem_server two_users) = Some L'" by simp
  have now: "le_now mem_env g = 1700000000000000000" for g by (simp add: mem_env_def)
  from handler_task_equiv [OF run] run now show ?thesis by (auto simp del: run_request.simps)
qed

section \<open>Threads\<close>

text \<open>
  The state is the task of each thread, and the pool with its world and the phases of the same
  threads. A thread that has finished takes the next request. A thread that acquires goes
  through the phases of \<open>Conn_Pool\<close>, in as many steps as it takes, until it holds a connection or has
  timed out; a release is the step of the pool that ends the holding. The other actions are
  atomic. \<open>ok\<close> says which requests arrive; \<open>data\<close> is what the world outside the process leaves
  alone.
\<close>

definition acquired :: "(conn option \<Rightarrow> task) \<Rightarrow> phase \<Rightarrow> task" where
  "acquired k ph =
     (case ph of
        Holding c \<Rightarrow> k (Some c)
      | Outside \<Rightarrow> k None
      | _ \<Rightarrow> Acquire k)"

definition holding :: "phase \<Rightarrow> conn option" where
  "holding ph = (case ph of Holding c \<Rightarrow> Some c | _ \<Rightarrow> None)"

type_synonym 'd threads = "task list \<times> (db_pool, 'd) pool_sys"

inductive threads_step ::
  "'d pg_env \<Rightarrow> ('d \<Rightarrow> 'x) \<Rightarrow> (logic_req \<Rightarrow> bool) \<Rightarrow> 'd threads \<Rightarrow> 'd threads \<Rightarrow> bool"
  for env data ok where
  arrive: "i < length ts \<Longrightarrow> ts ! i = Finished \<Longrightarrow> ok q \<Longrightarrow>
    threads_step env data ok (ts, s) (ts[i := task_of q], s)"
| acquire: "i < length ts \<Longrightarrow> ts ! i = Acquire k \<Longrightarrow> holding (ps_phases s ! i) = None \<Longrightarrow>
    pool_step (db_ops env) s s' \<Longrightarrow> ps_phases s' ! i \<noteq> ps_phases s ! i \<Longrightarrow>
    threads_step env data ok (ts, s) (ts[i := acquired k (ps_phases s' ! i)], s')"
| release: "i < length ts \<Longrightarrow> ts ! i = Release c t \<Longrightarrow> ps_phases s ! i = Holding c \<Longrightarrow>
    pool_step (db_ops env) s s' \<Longrightarrow> ps_phases s' ! i \<noteq> ps_phases s ! i \<Longrightarrow>
    threads_step env data ok (ts, s) (ts[i := t], s')"
| query: "i < length ts \<Longrightarrow> ts ! i = Query c q k \<Longrightarrow> pq_exec env c q (ps_world s) = (res, w) \<Longrightarrow>
    threads_step env data ok (ts, s) (ts[i := k res], s\<lparr>ps_world := w\<rparr>)"
| clock: "i < length ts \<Longrightarrow> ts ! i = Clock k \<Longrightarrow>
    threads_step env data ok (ts, s) (ts[i := k (pg_time env (ps_world s))], s)"
| stamp: "i < length ts \<Longrightarrow> ts ! i = Stamp k \<Longrightarrow>
    threads_step env data ok (ts, s) (ts[i := k now], s)"
| clear: "i < length ts \<Longrightarrow> ts ! i = Clear res t \<Longrightarrow>
    threads_step env data ok (ts, s) (ts[i := t], s\<lparr>ps_world := PQclear env res (ps_world s)\<rparr>)"
| outside: "data w = data (ps_world s) \<Longrightarrow>
    threads_step env data ok (ts, s) (ts, s\<lparr>ps_world := w\<rparr>)"

inductive threads_reach ::
  "'d pg_env \<Rightarrow> ('d \<Rightarrow> 'x) \<Rightarrow> (logic_req \<Rightarrow> bool) \<Rightarrow> 'd threads \<Rightarrow> 'd threads \<Rightarrow> bool"
  for env data ok x0 where
  start: "threads_reach env data ok x0 x0"
| step: "threads_reach env data ok x0 x \<Longrightarrow> threads_step env data ok x y \<Longrightarrow> threads_reach env data ok x0 y"

text \<open>The start: \<open>N\<close> threads without a request, outside the pool.\<close>

definition threads_start :: "db_pool \<Rightarrow> 'd \<Rightarrow> nat \<Rightarrow> 'd threads" where
  "threads_start p d N = (replicate N Finished, pool_start p d N)"

text \<open>A step of the pool by one thread does to the world what opening and closing connections does.\<close>

lemma pool_step_frame:
  assumes "pool_step (db_ops env) s s'" and "conn_frame env data" and "ps_phases s' \<noteq> ps_phases s"
  shows "data (ps_world s') = data (ps_world s)"
  using assms(1)
proof cases
  case (take i c p' w')
  with DbPool_turn_frame [OF assms(2)] show ?thesis by simp
next
  case (create i p' w')
  with DbPool_turn_frame [OF assms(2)] show ?thesis by simp
next
  case (block i p' w')
  with DbPool_turn_frame [OF assms(2)] show ?thesis by simp
next
  case (connect i r w')
  with DbPool_CreateConn_frame [OF assms(2)] show ?thesis by simp
next
  case (release i c p' w')
  with DbPool_Release_frame [OF assms(2), of c "(ps_pool s, ps_world s)"] show ?thesis by simp
qed (use assms(3) in simp_all)

section \<open>What every statement keeps\<close>

text \<open>
  The server as the threads see it: a statement may fail, and a failed statement may have been
  executed all the same, when the connection breaks before the answer is back.
\<close>

definition answers :: "stmt \<Rightarrow> pg_result \<Rightarrow> tables \<Rightarrow> tables \<Rightarrow> bool" where
  "answers s res t t' \<longleftrightarrow>
     failed res \<and> (t' = t \<or> (\<exists>n. sql_fresh s t n \<and> t' = sql_update s n t)) \<or> exec_ok s res t t'"

definition pg_answers :: "'d pg_env \<Rightarrow> ('d \<Rightarrow> tables) \<Rightarrow> bool" where
  "pg_answers env data \<longleftrightarrow> conn_frame env data \<and> (\<forall>res d. data (pq_clear env res d) = data d) \<and>
     (\<forall>c s d res d'. clean_stmt s \<and> pq_exec env c (stmt_text s) d = (res, d') \<longrightarrow>
        answers s res (data d) (data d'))"

lemma pg_conforms_answers: "pg_conforms env data \<Longrightarrow> pg_answers env data"
  unfolding pg_conforms_def pg_answers_def answers_def by blast

lemma pg_answers_exec:
  "pg_answers env data \<Longrightarrow> clean_stmt s \<Longrightarrow> pq_exec env c (stmt_text s) d = (res, d') \<Longrightarrow>
   answers s res (data d) (data d')"
  unfolding pg_answers_def by blast

lemma pg_answers_frame:
  assumes "pg_answers env data"
  shows "conn_frame env data" and "data (PQclear env res d) = data d"
  using assms by (simp_all add: pg_answers_def PQclear_def split: pg_result.split)

text \<open>Nothing in the service takes back a friendship or a request.\<close>

definition grows :: "tables \<Rightarrow> tables \<Rightarrow> bool" where
  "grows t t' \<longleftrightarrow> (\<forall>u v. (friend_of t u v \<longrightarrow> friend_of t' u v) \<and> (requested u v t \<longrightarrow> requested u v t'))"

lemma grows_refl [simp]: "grows t t"
  by (simp add: grows_def)

lemma grows_trans: "grows t t' \<Longrightarrow> grows t' t'' \<Longrightarrow> grows t t''"
  by (simp add: grows_def)

lemma other_tables [simp]:
  "friend_of (t\<lparr>tb_msg := ms\<rparr>) = friend_of t" "friend_of (t\<lparr>tb_user := us\<rparr>) = friend_of t"
  "friend_of (t\<lparr>tb_request := rs\<rparr>) = friend_of t" "friend_of (t\<lparr>tb_gmsg := gs\<rparr>) = friend_of t"
  "requested u v (t\<lparr>tb_msg := ms\<rparr>) = requested u v t" "requested u v (t\<lparr>tb_user := us\<rparr>) = requested u v t"
  "requested u v (t\<lparr>tb_gmsg := gs\<rparr>) = requested u v t"
  "requested u v (t\<lparr>tb_request := tb_request t @ rs\<rparr>) \<longleftrightarrow>
     requested u v t \<or> (\<exists>r \<in> set rs. {qr_from r, qr_to r} = {u, v})"
  by (auto simp: friend_of_def requested_def fun_eq_iff)

lemma sql_update_grows: "grows t (sql_update s n t)"
  by (cases s) (simp_all add: grows_def)

lemma answers_tables: "answers s res t t' \<Longrightarrow> t' = t \<or> (\<exists>n. sql_fresh s t n \<and> t' = sql_update s n t)"
  by (auto simp: answers_def exec_ok_def)

lemma answers_grows: "answers s res t t' \<Longrightarrow> grows t t'"
  by (auto dest!: answers_tables simp: sql_update_grows)

text \<open>The statements that need consent, and the tables in which they have it.\<close>

fun allowed :: "stmt \<Rightarrow> tables \<Rightarrow> bool" where
  "allowed (InsertMsg i u v c now) t \<longleftrightarrow> friend_of t u v"
| "allowed (InsertFriend u v now) t \<longleftrightarrow> requested u v t"
| "allowed s t \<longleftrightarrow> True"

lemma allowed_grows: "allowed s t \<Longrightarrow> grows t t' \<Longrightarrow> allowed s t'"
  by (cases s) (auto simp: grows_def)

lemma consensual_update:
  assumes "consensual t" and "allowed s t"
  shows "consensual (sql_update s n t)"
proof (cases s)
  case (InsertFriend u v now)
  then show ?thesis using assms by (simp add: consensual_add_friend)
next
  case (InsertMsg i u v c now)
  then show ?thesis using assms by (simp add: consensual_alt)
qed (use assms(1) in \<open>simp_all add: consensual_alt\<close>)

lemma answers_consensual: "answers s res t t' \<Longrightarrow> allowed s t \<Longrightarrow> consensual t \<Longrightarrow> consensual t'"
  by (auto dest!: answers_tables simp: consensual_update)

lemma answers_SelectFriend:
  "answers (SelectFriend u v) res t t' \<Longrightarrow> t' = t \<and> (has_row res \<longrightarrow> friend_of t u v)"
  by (auto simp: answers_def exec_ok_def has_row_def failed_def split: if_splits)

lemma answers_SelectRequest:
  assumes "answers (SelectRequest req) res t t'" and "accept_find res = Inr (Some (u, v))"
  shows "requested u v t'"
proof -
  have "accept_find res = Inr None" if "failed res" using that by (simp add: accept_find_def)
  with assms have "exec_ok (SelectRequest req) res t t'" by (auto simp: answers_def)
  from accept_find_row [OF this] assms(2) show ?thesis by (auto intro: requested_open)
qed

section \<open>Consent on threads\<close>

text \<open>
  A task is good in tables when every statement it may ever send has the consent it needs by the
  time it is executed, whatever the other threads do to the tables before.
\<close>

primrec good :: "'d pg_env \<Rightarrow> ('d \<Rightarrow> tables) \<Rightarrow> task \<Rightarrow> tables \<Rightarrow> bool" where
  "good env data Finished = (\<lambda>t. True)"
| "good env data (Acquire k) = (\<lambda>t. \<forall>g. good env data (k g) t)"
| "good env data (Clock k) = (\<lambda>t. \<forall>now. good env data (k now) t)"
| "good env data (Stamp k) = (\<lambda>t. \<forall>now. good env data (k now) t)"
| "good env data (Query c q k) = (\<lambda>t. \<forall>d res d'. grows t (data d) \<longrightarrow> pq_exec env c q d = (res, d') \<longrightarrow>
     grows (data d) (data d') \<and> (consensual (data d) \<longrightarrow> consensual (data d')) \<and> good env data (k res) (data d'))"
| "good env data (Clear res tk) = good env data tk"
| "good env data (Release c tk) = good env data tk"

lemma good_grows: "good env data tk t \<Longrightarrow> grows t t' \<Longrightarrow> good env data tk t'"
  by (induction tk arbitrary: t t') (fastforce intro: grows_trans)+

lemma good_query:
  assumes "pg_answers env data" and "clean_stmt s" and "allowed s t"
    and "\<And>res t1 t2. grows t t1 \<Longrightarrow> answers s res t1 t2 \<Longrightarrow> good env data (k res) t2"
  shows "good env data (Query c (c_str (stmt_text s)) k) t"
proof -
  have "grows (data d) (data d') \<and> (consensual (data d) \<longrightarrow> consensual (data d')) \<and> good env data (k res) (data d')"
    if g: "grows t (data d)" and x: "pq_exec env c (c_str (stmt_text s)) d = (res, d')" for d res d'
  proof -
    have "answers s res (data d) (data d')"
      using pg_answers_exec [OF assms(1,2)] x c_str_stmt_text [OF assms(2)] by simp
    then show ?thesis
      using answers_grows answers_consensual allowed_grows [OF assms(3) g] assms(4) [OF g] by blast
  qed
  then show ?thesis by simp
qed

lemma good_ask:
  assumes "pg_answers env data" and "clean_stmt s" and "allowed s t"
    and "\<And>res t1 t2. grows t t1 \<Longrightarrow> answers s res t1 t2 \<Longrightarrow> good env data (k (read res)) t2"
  shows "good env data (ask c (stmt_text s) read k) t"
  unfolding ask_def
proof (rule good_query [OF assms(1-3)])
  fix res t1 t2
  assume "grows t t1" and "answers s res t1 t2"
  then have "good env data (k (read res)) t2" by (rule assms(4))
  then show "good env data (case read res of Inl e \<Rightarrow> k (Inl e) | Inr x \<Rightarrow> Clear res (k (Inr x))) t2"
    by (cases "read res") simp_all
qed

lemma good_query_task:
  assumes "pg_answers env data" and "clean_stmt s" and "allowed s t" and "good env data (k (Inr dflt)) t"
    and "\<And>res t1 t2. grows t t1 \<Longrightarrow> answers s res t1 t2 \<Longrightarrow> good env data (k (read res)) t2"
  shows "good env data (query_task dflt (stmt_text s) read k) t"
proof -
  have "good env data (ask c (stmt_text s) read (\<lambda>r. Release c (k r))) t" for c
    by (rule good_ask [OF assms(1-3)]) (simp add: assms(5))
  then show ?thesis by (simp add: query_task_def guarded_def assms(4) split: option.split)
qed

lemma good_timed_task:
  assumes "pg_answers env data" and "\<And>now. clean_stmt (s now)" and "\<And>now. allowed (s now) t"
    and "good env data (k (Inr dflt)) t"
    and "\<And>now res t1 t2. grows t t1 \<Longrightarrow> answers (s now) res t1 t2 \<Longrightarrow> good env data (k (read res)) t2"
  shows "good env data (timed_task dflt (\<lambda>now. stmt_text (s now)) read k) t"
proof -
  have "good env data (ask c (stmt_text (s now)) read (\<lambda>r. Release c (k r))) t" for c now
    by (rule good_ask [OF assms(1-3)]) (simp add: assms(5))
  then show ?thesis by (simp add: timed_task_def guarded_def assms(4) split: option.split)
qed

lemma good_send_task:
  assumes conf: "pg_answers env data" and "clean (cm_content m)"
  shows "good env data (send_task m) t"
  unfolding send_task_def stmt_text.simps(12) [symmetric]
proof (rule good_query_task [OF conf])
  let ?s = "\<lambda>i. InsertMsg (to_string i) (cm_from_uid m) (cm_to_uid m) (cm_content m)"
  fix res t1 t2
  assume "answers (SelectFriend (cm_from_uid m) (cm_to_uid m)) res t1 t2"
  then have yes: "has_row res \<longrightarrow> friend_of t2 (cm_from_uid m) (cm_to_uid m)"
    by (auto dest!: answers_SelectFriend)
  have "good env data (timed_task False (\<lambda>now. stmt_text (?s i now)) command_ok (\<lambda>_. Finished)) t2"
    if "has_row res" for i
    by (rule good_timed_task [OF conf]) (use yes that assms(2) in simp_all)
  then show "good env data (case (Inr (has_row res) :: bool throws) of Inl e \<Rightarrow> Finished
    | Inr friends \<Rightarrow> if \<not> friends then Finished else Stamp (\<lambda>i. timed_task False
        (sql_SaveMessage (to_string i) (cm_from_uid m) (cm_to_uid m) (cm_content m))
        command_ok (\<lambda>_. Finished))) t2"
    by auto
qed simp_all

text \<open>Both inserts have the consent of the request that the select has found.\<close>

lemma good_befriend_task:
  assumes conf: "pg_answers env data" and "requested u v t" and k: "\<And>r t. good env data (k r) t"
  shows "good env data (befriend_task c req u v k) t"
proof -
  have rest: "good env data (Clear r1 (Clear r2
      (if PQresultStatus r1 \<noteq> PGRES_COMMAND_OK \<or> PQresultStatus r2 \<noteq> PGRES_COMMAND_OK then k (Inr False)
       else ask c (stmt_text (SetAccepted req)) (\<lambda>res. Inr True) k))) t'" for r1 r2 t'
    using good_ask [OF conf, of "SetAccepted req" t' k "\<lambda>res. Inr True" c] k by simp
  have second: "good env data (Query c (c_str (stmt_text (InsertFriend v u now))) (\<lambda>r2. Clear r1 (Clear r2
      (if PQresultStatus r1 \<noteq> PGRES_COMMAND_OK \<or> PQresultStatus r2 \<noteq> PGRES_COMMAND_OK then k (Inr False)
       else ask c (stmt_text (SetAccepted req)) (\<lambda>res. Inr True) k)))) t'"
    if "requested u v t'" for now r1 t'
    by (rule good_query [OF conf _ _ rest]) (use that requested_sym [of v u t'] in simp_all)
  have "good env data (Query c (c_str (stmt_text (InsertFriend u v now))) (\<lambda>r1.
      Query c (c_str (stmt_text (InsertFriend v u now))) (\<lambda>r2. Clear r1 (Clear r2
      (if PQresultStatus r1 \<noteq> PGRES_COMMAND_OK \<or> PQresultStatus r2 \<noteq> PGRES_COMMAND_OK then k (Inr False)
       else ask c (stmt_text (SetAccepted req)) (\<lambda>res. Inr True) k))))) t" for now
  proof (rule good_query [OF conf])
    fix r1 t1 t2
    assume "grows t t1" and "answers (InsertFriend u v now) r1 t1 t2"
    then have "grows t t2" by (blast intro: grows_trans answers_grows)
    with assms(2) have "requested u v t2" by (simp add: grows_def)
    then show "good env data (Query c (c_str (stmt_text (InsertFriend v u now))) (\<lambda>r2. Clear r1 (Clear r2
      (if PQresultStatus r1 \<noteq> PGRES_COMMAND_OK \<or> PQresultStatus r2 \<noteq> PGRES_COMMAND_OK then k (Inr False)
       else ask c (stmt_text (SetAccepted req)) (\<lambda>res. Inr True) k)))) t2" by (rule second)
  qed (use assms(2) in simp_all)
  then show ?thesis unfolding befriend_task_def stmt_text.simps good.simps(3) by blast
qed

lemma good_accept_task:
  assumes conf: "pg_answers env data"
  shows "good env data (accept_task req (\<lambda>_. Finished)) t"
proof -
  have "good env data (ask c (stmt_text (SelectRequest req)) accept_find (\<lambda>r. case r of
         Inl e \<Rightarrow> Release c Finished
       | Inr None \<Rightarrow> Release c Finished
       | Inr (Some (u, v)) \<Rightarrow> befriend_task c req u v (\<lambda>r. Release c Finished))) t" for c
  proof (rule good_ask [OF conf])
    fix res t1 t2
    assume "answers (SelectRequest req) res t1 t2"
    note found = answers_SelectRequest [OF this]
    show "good env data (case accept_find res of
         Inl e \<Rightarrow> Release c Finished
       | Inr None \<Rightarrow> Release c Finished
       | Inr (Some (u, v)) \<Rightarrow> befriend_task c req u v (\<lambda>r. Release c Finished)) t2"
      by (auto split: sum.split option.split intro: good_befriend_task [OF conf] dest: found)
  qed simp_all
  then show ?thesis by (simp add: accept_task_def guarded_def split: option.split)
qed

lemma good_one_query:
  assumes "pg_answers env data" and "clean_stmt s" and "\<And>t. allowed s t"
  shows "good env data (query_task dflt (stmt_text s) read (\<lambda>_. Finished)) t"
  by (rule good_query_task [OF assms]) simp_all

lemma good_task_of:
  assumes conf: "pg_answers env data" and "clean_req q"
  shows "good env data (task_of q) t"
proof (cases q)
  case (Rpc_Login r)
  then show ?thesis using good_one_query [OF conf, of "SelectPassword (lq_uid r)"] by simp
next
  case (Rpc_SendMsg r)
  then show ?thesis using good_send_task [OF conf] assms(2) by simp
next
  case (Rpc_SyncMsg r)
  then show ?thesis using good_one_query [OF conf, of "SelectOffline (yq_uid r) (yq_last_msg_id r)"] by simp
next
  case (Rpc_RegisterUser r)
  then show ?thesis
    using good_one_query [OF conf, of "InsertUser (rq_nickname r) (rq_password r) (rq_email r)"] assms(2) by simp
next
  case (Rpc_HttpLogin r)
  then show ?thesis using good_one_query [OF conf, of "SelectByEmail (hq_email r)"] assms(2) by simp
next
  case (Rpc_SendFriendRequest r)
  then show ?thesis
    using good_timed_task [OF conf, of "InsertRequest (fq_from_uid r) (fq_to_uid r) (fq_reason r)" t
        "\<lambda>_. Finished"] assms(2) by simp
next
  case (Rpc_RespondFriendRequest r)
  then show ?thesis
    using good_one_query [OF conf, of "SetRejected (pq_req_id r)"] good_accept_task [OF conf] by auto
next
  case (Rpc_ListFriends r)
  then show ?thesis using good_one_query [OF conf, of "SelectFriends (gq_uid r)"] by simp
next
  case (Rpc_GetFriendRequests r)
  then show ?thesis using good_one_query [OF conf, of "SelectPending (jq_uid r)"] by simp
qed simp

lemma good_update:
  assumes "\<forall>tk \<in> set ts. good env data tk t" and "grows t t'" and "good env data tk t'"
  shows "\<forall>x \<in> set (ts[i := tk]). good env data x t'"
  using assms good_grows [OF _ assms(2)] set_update_subset_insert [of ts i tk] by blast

lemma good_acquired: "good env data (Acquire k) t \<Longrightarrow> good env data (acquired k ph) t"
  by (simp add: acquired_def split: phase.split)

definition consent_inv :: "'d pg_env \<Rightarrow> ('d \<Rightarrow> tables) \<Rightarrow> 'd threads \<Rightarrow> bool" where
  "consent_inv env data x \<longleftrightarrow> consensual (data (ps_world (snd x))) \<and>
     (\<forall>tk \<in> set (fst x). good env data tk (data (ps_world (snd x))))"

lemma consent_nth: "consent_inv env data (ts, s) \<Longrightarrow> i < length ts \<Longrightarrow> ts ! i = tk \<Longrightarrow>
    good env data tk (data (ps_world s))"
  by (auto simp: consent_inv_def)

lemma consent_update:
  assumes "consent_inv env data (ts, s)" and "good env data tk (data (ps_world s'))"
    and "grows (data (ps_world s)) (data (ps_world s'))"
    and "consensual (data (ps_world s)) \<Longrightarrow> consensual (data (ps_world s'))"
  shows "consent_inv env data (ts[i := tk], s')"
proof -
  have "\<forall>tk \<in> set ts. good env data tk (data (ps_world s))" and "consensual (data (ps_world s))"
    using assms(1) by (simp_all add: consent_inv_def)
  then show ?thesis unfolding consent_inv_def fst_conv snd_conv
    using good_update [OF _ assms(3,2)] assms(4) by blast
qed

lemma consent_same:
  assumes "consent_inv env data (ts, s)" and "good env data tk (data (ps_world s))"
    and "data (ps_world s') = data (ps_world s)"
  shows "consent_inv env data (ts[i := tk], s')"
  by (rule consent_update [OF assms(1)]) (simp_all add: assms(2,3))

lemma consent_step:
  assumes conf: "pg_answers env data" and inv: "consent_inv env data x"
    and "threads_step env data clean_req x y"
  shows "consent_inv env data y"
  using assms(3)
proof cases
  case (arrive i ts q s)
  with consent_same [OF inv [unfolded arrive(1)] good_task_of [OF conf]] show ?thesis by simp
next
  case (acquire i ts k s s')
  have "data (ps_world s') = data (ps_world s)"
    using pool_step_frame [OF acquire(6) pg_answers_frame(1) [OF conf]] acquire(7) by metis
  with consent_same [OF inv [unfolded acquire(1)] good_acquired [OF consent_nth [OF inv [unfolded acquire(1)] acquire(3,4)]]]
  show ?thesis unfolding acquire(2) .
next
  case (release i ts c t s s')
  have "data (ps_world s') = data (ps_world s)"
    using pool_step_frame [OF release(6) pg_answers_frame(1) [OF conf]] release(7) by metis
  with consent_same [OF inv [unfolded release(1)]] consent_nth [OF inv [unfolded release(1)] release(3,4)]
  show ?thesis unfolding release(2) by simp
next
  case (query i ts c q k s res w)
  have "grows (data (ps_world s)) (data w)" "good env data (k res) (data w)"
    "consensual (data (ps_world s)) \<longrightarrow> consensual (data w)"
    using consent_nth [OF inv [unfolded query(1)] query(3,4)] query(5) grows_refl
    unfolding good.simps(5) by blast+
  then show ?thesis unfolding query(2) by (intro consent_update [OF inv [unfolded query(1)]]) simp_all
next
  case (clock i ts k s)
  with consent_same [OF inv [unfolded clock(1)]] consent_nth [OF inv [unfolded clock(1)] clock(3,4)]
  show ?thesis by simp
next
  case (stamp i ts k s now)
  with consent_same [OF inv [unfolded stamp(1)]] consent_nth [OF inv [unfolded stamp(1)] stamp(3,4)]
  show ?thesis by simp
next
  case (clear i ts res t s)
  with consent_same [OF inv [unfolded clear(1)]] consent_nth [OF inv [unfolded clear(1)] clear(3,4)]
  show ?thesis by (simp add: pg_answers_frame(2) [OF conf])
next
  case (outside w s ts)
  with inv show ?thesis by (simp add: consent_inv_def)
qed

lemma consent_reach:
  assumes "pg_answers env data" and "threads_reach env data clean_req x0 x" and "consent_inv env data x0"
  shows "consent_inv env data x"
  using assms(2)
proof induction
  case (step x y)
  with consent_step [OF assms(1)] show ?case by blast
qed (rule assms(3))

text \<open>
  C4: consent survives concurrency. Any number of threads handle requests with clean text at
  the same time; their statements, with the texts the client pastes together, interleave in
  any order, and each may fail, or be executed although its answer is lost. Starting from an
  empty database every stored message was sent to a friend, and every friendship stems from a
  request between the two users, although no handler opens a transaction.
\<close>

theorem threads_keep_consent:
  assumes "pg_answers env data" and "data d = no_tables"
    and "threads_reach env data clean_req (threads_start p d N) (ts, s)"
  shows "(\<forall>m \<in> set (tb_msg (data (ps_world s))). friend_of (data (ps_world s)) (mr_from m) (mr_to m)) \<and>
    (\<forall>u v. friend_of (data (ps_world s)) u v \<longrightarrow>
       (\<exists>r \<in> set (tb_request (data (ps_world s))). {qr_from r, qr_to r} = {u, v}))"
proof -
  have "consent_inv env data (threads_start p d N)"
    using assms(2) by (simp add: consent_inv_def threads_start_def pool_start_def consensual_def
        no_tables_def friend_of_def)
  from consent_reach [OF assms(1,3) this] show ?thesis by (simp add: consent_inv_def consensual_def)
qed

section \<open>Connections on threads\<close>

text \<open>
  A task that keeps the discipline of guards, holding the connection \<open>h\<close>: it acquires only
  when it holds none, sends statements only on the connection it holds, and releases exactly
  this connection before it ends or acquires again, on every path.
\<close>

primrec disciplined :: "task \<Rightarrow> conn option \<Rightarrow> bool" where
  "disciplined Finished = (\<lambda>h. h = None)"
| "disciplined (Acquire k) = (\<lambda>h. h = None \<and> (\<forall>g. disciplined (k g) g))"
| "disciplined (Clock k) = (\<lambda>h. \<forall>now. disciplined (k now) h)"
| "disciplined (Stamp k) = (\<lambda>h. \<forall>now. disciplined (k now) h)"
| "disciplined (Query c q k) = (\<lambda>h. h = Some c \<and> (\<forall>res. disciplined (k res) h))"
| "disciplined (Clear res t) = disciplined t"
| "disciplined (Release c t) = (\<lambda>h. h = Some c \<and> disciplined t None)"

lemma disciplined_ask: "(\<And>r. disciplined (k r) (Some c)) \<Longrightarrow> disciplined (ask c sql read k) (Some c)"
  by (simp add: ask_def split: sum.split)

lemma disciplined_guarded:
  assumes "\<And>r. disciplined (k r) None"
    and "\<And>c k. (\<And>r. disciplined (k r) (Some c)) \<Longrightarrow> disciplined (body c k) (Some c)"
  shows "disciplined (guarded dflt body k) None"
  using assms by (simp add: guarded_def split: option.split)

lemma disciplined_query_task: "(\<And>r. disciplined (k r) None) \<Longrightarrow> disciplined (query_task dflt sql read k) None"
  unfolding query_task_def by (rule disciplined_guarded) (simp_all add: disciplined_ask)

lemma disciplined_timed_task: "(\<And>r. disciplined (k r) None) \<Longrightarrow> disciplined (timed_task dflt sql read k) None"
  unfolding timed_task_def by (rule disciplined_guarded) (simp_all add: disciplined_ask)

lemma disciplined_accept_task: "(\<And>r. disciplined (k r) None) \<Longrightarrow> disciplined (accept_task req k) None"
  unfolding accept_task_def
  by (rule disciplined_guarded)
    (auto intro!: disciplined_ask simp: befriend_task_def split: sum.split option.split)

lemma disciplined_task_of: "disciplined (task_of q) None"
  by (cases q) (auto simp: send_task_def split: sum.split
      intro!: disciplined_query_task disciplined_timed_task disciplined_accept_task)

text \<open>A step of the pool that moves thread \<open>i\<close> moves no other thread.\<close>

lemma pool_step_moves:
  assumes "pool_step ops s s'" and "ps_phases s' ! i \<noteq> ps_phases s ! i"
  shows "ps_phases s' = (ps_phases s)[i := ps_phases s' ! i]"
    and "ps_phases s ! i = Holding c \<Longrightarrow> ps_phases s' ! i = Outside"
proof -
  have "\<exists>j ph. j < length (ps_phases s) \<and> ps_phases s' = (ps_phases s)[j := ph] \<and>
      (\<forall>c. ps_phases s ! j = Holding c \<longrightarrow> ph = Outside)"
    using assms(1)
  proof cases
    case (world w)
    with assms(2) show ?thesis by simp
  qed (simp, rule exI, rule conjI, assumption, rule exI, rule conjI, rule refl, simp)+
  then obtain j ph where j: "j < length (ps_phases s)" "ps_phases s' = (ps_phases s)[j := ph]"
    "\<forall>c. ps_phases s ! j = Holding c \<longrightarrow> ph = Outside" by blast
  moreover from this assms(2) have "j = i" by (metis nth_list_update_neq)
  ultimately show "ps_phases s' = (ps_phases s)[i := ps_phases s' ! i]"
    and "ps_phases s ! i = Holding c \<Longrightarrow> ps_phases s' ! i = Outside" by simp_all
qed

text \<open>Thread by thread: the task keeps the discipline, and is acquiring while it is inside \<open>Acquire\<close>.\<close>

definition thread_ok :: "task \<Rightarrow> phase \<Rightarrow> bool" where
  "thread_ok tk ph \<longleftrightarrow> disciplined tk (holding ph) \<and>
     (ph = Outside \<or> holding ph \<noteq> None \<or> (\<exists>k. tk = Acquire k))"

definition guards_inv :: "'d pg_env \<Rightarrow> nat \<Rightarrow> nat \<Rightarrow> 'd threads \<Rightarrow> bool" where
  "guards_inv env N mx x \<longleftrightarrow> pool_inv (db_ops env) N mx (snd x) \<and> length (fst x) = N \<and>
     (\<forall>i < N. thread_ok (fst x ! i) (ps_phases (snd x) ! i))"

lemma holding_simps [simp]:
  "holding Outside = None" "holding (Holding c) = Some c" "holding ph = Some c \<longleftrightarrow> ph = Holding c"
  by (simp_all add: holding_def split: phase.split)

lemma thread_ok_Outside: "thread_ok tk Outside \<longleftrightarrow> disciplined tk None"
  by (simp add: thread_ok_def)

lemma thread_ok_acquired:
  "disciplined (Acquire k) None \<Longrightarrow> thread_ok (acquired k ph) ph"
  by (auto simp: thread_ok_def acquired_def holding_def split: phase.split)

lemma guards_update:
  assumes "guards_inv env N mx (ts, s)" and "pool_inv (db_ops env) N mx s'"
    and "ps_phases s' = (ps_phases s)[i := ph]" and "thread_ok tk ph" and "i < length ts"
  shows "guards_inv env N mx (ts[i := tk], s')"
proof -
  have "length (ps_phases s) = N" using assms(1) db.inv_unfold(5) by (fastforce simp: guards_inv_def)
  with assms show ?thesis by (auto simp: guards_inv_def nth_list_update)
qed

lemma guards_world:
  assumes "guards_inv env N mx (ts, s)" and "mx + N < 2 ^ 64" and "i < length ts"
    and "thread_ok tk (ps_phases s ! i)"
  shows "guards_inv env N mx (ts[i := tk], s\<lparr>ps_world := w\<rparr>)"
proof (rule guards_update [OF assms(1) _ _ assms(4,3)])
  show "pool_inv (db_ops env) N mx (s\<lparr>ps_world := w\<rparr>)"
    using db.inv_step [OF pool_step.world _ assms(2)] assms(1) by (auto simp: guards_inv_def)
qed simp

lemma guards_pool:
  assumes "guards_inv env N mx (ts, s)" and "mx + N < 2 ^ 64" and "i < length ts"
    and "pool_step (db_ops env) s s'" and "ps_phases s' ! i \<noteq> ps_phases s ! i"
    and "thread_ok tk (ps_phases s' ! i)"
  shows "guards_inv env N mx (ts[i := tk], s')"
proof (rule guards_update [OF assms(1) _ pool_step_moves(1) [OF assms(4,5)] assms(6,3)])
  show "pool_inv (db_ops env) N mx s'"
    using db.inv_step [OF assms(4) _ assms(2)] assms(1) by (auto simp: guards_inv_def)
qed

lemma guards_nth:
  "guards_inv env N mx (ts, s) \<Longrightarrow> i < length ts \<Longrightarrow> ts ! i = tk \<Longrightarrow> thread_ok tk (ps_phases s ! i)"
  by (auto simp: guards_inv_def)

lemma guards_step:
  assumes inv: "guards_inv env N mx x" and small: "mx + N < 2 ^ 64" and "threads_step env data ok x y"
  shows "guards_inv env N mx y"
  using assms(3)
proof cases
  case (arrive i ts q s)
  then have "ps_phases s ! i = Outside"
    using guards_nth [OF inv [unfolded arrive(1)] arrive(3,4)] by (auto simp: thread_ok_def)
  then have "thread_ok (task_of q) (ps_phases s ! i)" by (simp add: thread_ok_Outside disciplined_task_of)
  from guards_world [OF inv [unfolded arrive(1)] small arrive(3) this, of "ps_world s"]
  show ?thesis unfolding arrive(2) by simp
next
  case (acquire i ts k s s')
  have "disciplined (Acquire k) None"
    using guards_nth [OF inv [unfolded acquire(1)] acquire(3,4)] acquire(5) by (simp add: thread_ok_def)
  then show ?thesis unfolding acquire(2)
    by (intro guards_pool [OF inv [unfolded acquire(1)] small acquire(3,6,7)] thread_ok_acquired)
next
  case (release i ts c t s s')
  have "thread_ok t (ps_phases s' ! i)"
    using guards_nth [OF inv [unfolded release(1)] release(3,4)]
      pool_step_moves(2) [OF release(6,7,5)] release(5) by (simp add: thread_ok_def)
  then show ?thesis unfolding release(2)
    by (rule guards_pool [OF inv [unfolded release(1)] small release(3,6,7)])
next
  case (query i ts c q k s res w)
  have "thread_ok (k res) (ps_phases s ! i)"
    using guards_nth [OF inv [unfolded query(1)] query(3,4)] by (auto simp: thread_ok_def)
  then show ?thesis unfolding query(2) by (rule guards_world [OF inv [unfolded query(1)] small query(3)])
next
  case (clock i ts k s)
  have "thread_ok (k (pg_time env (ps_world s))) (ps_phases s ! i)"
    using guards_nth [OF inv [unfolded clock(1)] clock(3,4)] by (auto simp: thread_ok_def)
  from guards_world [OF inv [unfolded clock(1)] small clock(3) this, of "ps_world s"]
  show ?thesis unfolding clock(2) by simp
next
  case (stamp i ts k s now)
  have "thread_ok (k now) (ps_phases s ! i)"
    using guards_nth [OF inv [unfolded stamp(1)] stamp(3,4)] by (auto simp: thread_ok_def)
  from guards_world [OF inv [unfolded stamp(1)] small stamp(3) this, of "ps_world s"]
  show ?thesis unfolding stamp(2) by simp
next
  case (clear i ts res t s)
  have "thread_ok t (ps_phases s ! i)"
    using guards_nth [OF inv [unfolded clear(1)] clear(3,4)] by (auto simp: thread_ok_def)
  then show ?thesis unfolding clear(2) by (rule guards_world [OF inv [unfolded clear(1)] small clear(3)])
next
  case (outside w s ts)
  with db.inv_step [OF pool_step.world _ small, of env s w] inv show ?thesis
    by (simp add: guards_inv_def)
qed

lemma guards_reach:
  assumes "threads_reach env data ok x0 x" and "guards_inv env N mx x0" and "mx + N < 2 ^ 64"
  shows "guards_inv env N mx x"
  using assms(1)
proof induction
  case (step x y)
  with guards_step [OF _ assms(3)] show ?case by blast
qed (rule assms(2))

text \<open>The connection that the next action of a task uses.\<close>

fun task_conn :: "task \<Rightarrow> conn option" where
  "task_conn (Query c q k) = Some c"
| "task_conn (Release c t) = Some c"
| "task_conn _ = None"

lemma disciplined_conn: "disciplined tk h \<Longrightarrow> task_conn tk = Some c \<Longrightarrow> h = Some c"
  by (cases tk) auto

lemma none_lent: "(\<forall>i < length phs. holding (phs ! i) = None) \<Longrightarrow> sum_list (map holds phs) = 0"
proof (induction phs)
  case (Cons ph phs)
  then have "holding ph = None" and "\<forall>i < length phs. holding (phs ! i) = None" by auto
  moreover from this(1) have "holds ph = 0" by (cases ph) simp_all
  ultimately show ?case using Cons.IH by simp
qed simp

text \<open>
  C18: the handlers use the pool as libpq requires, whatever they are asked, however their
  actions interleave, and whatever fails or throws: a thread that sends a statement or releases
  a connection holds this connection, it is not in the queue of the pool, and no other thread is
  using it; and when all threads have finished, every connection is back.
\<close>

theorem connections_exclusive:
  assumes "DbPool_new env ci mn mx d = (p, d')" and "mn \<le> mx" and "0 < N" and "mx + N < 2 ^ 64"
    and "distinct (dp_idle p)" and "threads_reach env data ok (threads_start p d' N) (ts, s)"
  shows "(\<forall>i < N. \<forall>c. task_conn (ts ! i) = Some c \<longrightarrow>
      ps_phases s ! i = Holding c \<and> c \<notin> set (dp_idle (ps_pool s)) \<and>
      (\<forall>j < N. task_conn (ts ! j) = Some c \<longrightarrow> j = i)) \<and>
    ((\<forall>i < N. ts ! i = Finished) \<longrightarrow> dp_total_created (ps_pool s) = length (dp_idle (ps_pool s)))"
proof -
  have "guards_inv env N mx (threads_start p d' N)"
    using db_reach_inv [OF assms(1-5) pool_reach.start]
    by (simp add: guards_inv_def threads_start_def pool_start_def thread_ok_def)
  from guards_reach [OF assms(6) this assms(4)]
  have inv: "pool_inv (db_ops env) N mx s" and ok: "\<And>i. i < N \<Longrightarrow> thread_ok (ts ! i) (ps_phases s ! i)"
    by (simp_all add: guards_inv_def)
  have hold: "ps_phases s ! i = Holding c" if "i < N" "task_conn (ts ! i) = Some c" for i c
    using disciplined_conn [OF _ that(2)] ok [OF that(1)] by (fastforce simp: thread_ok_def)
  have one: "c \<notin> set (dp_idle (ps_pool s)) \<and> (\<forall>j < N. ps_phases s ! j = Holding c \<longrightarrow> j = i)"
    if "i < N" "ps_phases s ! i = Holding c" for i c
    using db.inv_exclusive [OF inv, unfolded db.inv_unfold(5) [OF inv] db_ops_simps, OF that] .
  have "lent_conns s = 0" if "\<forall>i < N. ts ! i = Finished"
    unfolding lent_conns_def using that ok db.inv_unfold(5) [OF inv]
    by (intro none_lent) (fastforce simp: thread_ok_def)
  then have "(\<forall>i < N. ts ! i = Finished) \<longrightarrow> dp_total_created (ps_pool s) = length (dp_idle (ps_pool s))"
    using db.inv_unfold(1) [OF inv] by simp
  moreover have "\<forall>i < N. \<forall>c. task_conn (ts ! i) = Some c \<longrightarrow>
      ps_phases s ! i = Holding c \<and> c \<notin> set (dp_idle (ps_pool s)) \<and>
      (\<forall>j < N. task_conn (ts ! j) = Some c \<longrightarrow> j = i)"
    using hold one by blast
  ultimately show ?thesis by blast
qed

section \<open>An example\<close>

text \<open>
  Two threads, one with a friend request and one with a list of friends, hold the two connections of
  the pool and are about to send their statements; then the first one sends its own.
\<close>

abbreviation ask_req :: logic_req where
  "ask_req \<equiv> Rpc_SendFriendRequest \<lparr>fq_from_uid = 1, fq_to_uid = 2, fq_reason = ''hi''\<rparr>"

abbreviation list_req :: logic_req where
  "list_req \<equiv> Rpc_ListFriends \<lparr>gq_uid = 2\<rparr>"

lemma threads_call:
  assumes "threads_reach env data ok x0 (xs @ Acquire k # ys, sys_at p w (phs @ Outside # phs'))"
    and "length phs = length xs"
  shows "threads_reach env data ok x0 (xs @ Acquire k # ys, sys_at p w (phs @ Entering # phs'))"
proof -
  have "threads_step env data ok (xs @ Acquire k # ys, sys_at p w (phs @ Outside # phs'))
      ((xs @ Acquire k # ys)[length xs := acquired k Entering], sys_at p w (phs @ Entering # phs'))"
    using threads_step.acquire [of "length xs" "xs @ Acquire k # ys" k _ env
        "sys_at p w (phs @ Entering # phs')" data ok, OF _ _ _ step_call_at] assms(2)
    by (simp add: nth_append)
  from threads_reach.step [OF assms(1) this] show ?thesis by (simp add: acquired_def)
qed

lemma threads_take:
  assumes "threads_reach env data ok x0 (xs @ Acquire k # ys, sys_at p w (phs @ Entering # phs'))"
    and "length phs = length xs" and "po_turn (db_ops env) p w = (Take c, p', w)"
  shows "threads_reach env data ok x0 (xs @ k (Some c) # ys, sys_at p' w (phs @ Holding c # phs'))"
proof -
  have "threads_step env data ok (xs @ Acquire k # ys, sys_at p w (phs @ Entering # phs'))
      ((xs @ Acquire k # ys)[length xs := acquired k (Holding c)], sys_at p' w (phs @ Holding c # phs'))"
    using threads_step.acquire [of "length xs" "xs @ Acquire k # ys" k _ env
        "sys_at p' w (phs @ Holding c # phs')" data ok, OF _ _ _ step_take_at [OF assms(3)]] assms(2)
    by (simp add: nth_append holding_def)
  from threads_reach.step [OF assms(1) this] show ?thesis by (simp add: acquired_def)
qed

lemma threads_both_hold:
  assumes "ok ask_req" and "ok list_req"
    and turns: "po_turn (db_ops env) p w = (Take c, p1, w)" "po_turn (db_ops env) p1 w = (Take c', p2, w)"
  shows "\<exists>k k'. threads_reach env data ok (threads_start p w 2)
    ([Query c (c_str (sql_CreateFriendRequest 1 2 ''hi'' (pg_time env w))) k, Query c' (c_str (sql_ListFriends 2)) k'],
     sys_at p2 w [Holding c, Holding c'])"
proof -
  let ?x0 = "threads_start p w 2"
  let ?s = "sys_at p w [Outside, Outside]"
  obtain k1 k where k1: "task_of ask_req = Acquire k1"
    "k1 (Some c) = Clock (\<lambda>now. Query c (c_str (sql_CreateFriendRequest 1 2 ''hi'' now)) k)"
    by (auto simp: timed_task_def guarded_def ask_def)
  obtain k2 k' where k2: "task_of list_req = Acquire k2" "k2 (Some c') = Query c' (c_str (sql_ListFriends 2)) k'"
    by (auto simp: query_task_def guarded_def ask_def)
  have x0: "?x0 = ([Finished, Finished], ?s)"
    by (simp add: threads_start_def pool_start_def numeral_2_eq_2)
  have "threads_reach env data ok ?x0 ([task_of ask_req, Finished], ?s)"
    using threads_reach.step [OF threads_reach.start threads_step.arrive
        [of 0 "[Finished, Finished]" ok ask_req env data ?s]] assms(1) unfolding x0 by simp
  then have "threads_reach env data ok ?x0 ([task_of ask_req, task_of list_req], ?s)"
    using threads_reach.step [OF _ threads_step.arrive
        [of 1 "[task_of ask_req, Finished]" ok list_req env data ?s]] assms(2) by simp
  then have "threads_reach env data ok ?x0 ([] @ Acquire k1 # [Acquire k2], sys_at p w ([] @ Outside # [Outside]))"
    by (simp add: k1(1) k2(1) del: task_of.simps)
  from threads_call [OF this] have "threads_reach env data ok ?x0
      ([Acquire k1] @ Acquire k2 # [], sys_at p w ([Entering] @ Outside # []))" by simp
  from threads_call [OF this] have "threads_reach env data ok ?x0
      ([] @ Acquire k1 # [Acquire k2], sys_at p w ([] @ Entering # [Entering]))" by simp
  from threads_take [OF this _ turns(1)] have "threads_reach env data ok ?x0
      ([k1 (Some c)] @ Acquire k2 # [], sys_at p1 w ([Holding c] @ Entering # []))" by simp
  from threads_take [OF this _ turns(2)] have both: "threads_reach env data ok ?x0
      ([k1 (Some c), k2 (Some c')], sys_at p2 w [Holding c, Holding c'])" by simp
  show ?thesis
    using threads_reach.step [OF both threads_step.clock [of 0 _ _ env data ok]] unfolding k1(2) k2(2)
    by (intro exI [of _ k] exI [of _ k']) simp
qed

lemma DbPool_new_counting:
  "DbPool_new counting_pg [] 2 20 3 =
     (\<lparr>dp_conninfo = [], dp_min_pool = 2, dp_max_pool = 20, dp_idle = [3, 4], dp_total_created = 2\<rparr>, 5)"
  by (simp add: DbPool_new_def DbPool_CreateConn_def counting_pg_def numeral_2_eq_2)

theorem connections_exclusive_witness:
  "\<exists>p w ts s. DbPool_new counting_pg [] 2 20 3 = (p, w) \<and>
     threads_reach counting_pg (\<lambda>d. d) (\<lambda>q. True) (threads_start p w 2) (ts, s) \<and>
     task_conn (ts ! 0) = Some 3 \<and> task_conn (ts ! 1) = Some 4 \<and> ps_phases s ! 1 = Holding 4"
proof -
  let ?p = "\<lambda>cs. \<lparr>dp_conninfo = [], dp_min_pool = 2, dp_max_pool = 20, dp_idle = cs, dp_total_created = 2\<rparr>"
  have turns: "po_turn (db_ops counting_pg) (?p [3, 4]) 5 = (Take 3, ?p [4], 5)"
    "po_turn (db_ops counting_pg) (?p [4]) 5 = (Take 4, ?p [], 5)"
    by (simp_all add: DbPool_turn_def DbPool_IsHealthy_def counting_pg_def)
  obtain k k' where run: "threads_reach counting_pg (\<lambda>d. d) (\<lambda>q. True) (threads_start (?p [3, 4]) 5 2)
    ([Query 3 (c_str (sql_CreateFriendRequest 1 2 ''hi'' (pg_time counting_pg 5))) k,
      Query 4 (c_str (sql_ListFriends 2)) k'], sys_at (?p []) 5 [Holding 3, Holding 4])"
    using threads_both_hold [where ok = "\<lambda>q. True", OF _ _ turns] by blast
  from connections_exclusive [OF DbPool_new_counting _ _ _ _ run, THEN conjunct1, rule_format, of 1 4]
  have "ps_phases (sys_at (?p []) 5 [Holding 3, Holding 4]) ! 1 = Holding 4" by simp
  with run DbPool_new_counting show ?thesis
    by (intro exI [of _ "?p [3, 4]"] exI [of _ 5] exI [of _ "[Query 3 (c_str (sql_CreateFriendRequest 1 2 ''hi''
        (pg_time counting_pg 5))) k, Query 4 (c_str (sql_ListFriends 2)) k']"] exI [of _ "sys_at (?p []) 5 [Holding 3, Holding 4]"])
      simp
qed

theorem threads_keep_consent_witness:
  "\<exists>ts s. threads_reach mem_pg (\<lambda>t. t) clean_req (threads_start mem_pool no_tables 2) (ts, s) \<and>
     tb_request (ps_world s) \<noteq> [] \<and> (\<forall>m \<in> set (tb_msg (ps_world s)). friend_of (ps_world s) (mr_from m) (mr_to m))"
proof -
  let ?s = "InsertRequest 1 2 ''hi'' 1700000000"
  have turns: "po_turn (db_ops mem_pg) mem_pool t = (Take 3, mem_pool\<lparr>dp_idle := [4]\<rparr>, t)"
    "po_turn (db_ops mem_pg) (mem_pool\<lparr>dp_idle := [4]\<rparr>) t = (Take 4, mem_pool\<lparr>dp_idle := []\<rparr>, t)" for t
    by (simp_all add: DbPool_turn_def DbPool_IsHealthy_def mem_pg_def mem_pool_def)
  have clean: "clean_req ask_req" "clean_req list_req" "clean_stmt ?s"
    by (simp_all add: clean_def quote_free_def NUL_def)
  obtain k k' where run: "threads_reach mem_pg (\<lambda>t. t) clean_req (threads_start mem_pool no_tables 2)
    ([Query 3 (c_str (stmt_text ?s)) k, Query 4 (c_str (sql_ListFriends 2)) k'],
     sys_at (mem_pool\<lparr>dp_idle := []\<rparr>) no_tables [Holding 3, Holding 4])"
    using threads_both_hold [OF clean(1,2) turns [of no_tables], of "\<lambda>t. t"] by (auto simp: mem_pg_def)
  have fresh: "sql_fresh ?s no_tables (next_serial ?s no_tables)"
    by (simp add: next_serial_def no_tables_def word_sless_alt)
  obtain res where x: "pq_exec mem_pg 3 (c_str (stmt_text ?s)) no_tables =
      (res, sql_update ?s (next_serial ?s no_tables) no_tables)"
    using engine_exec_text [OF clean(3), of no_tables] fresh c_str_stmt_text [OF clean(3)]
    by (simp add: mem_pg_def del: stmt_text.simps sql_update.simps sql_fresh.simps)
  have "threads_reach mem_pg (\<lambda>t. t) clean_req (threads_start mem_pool no_tables 2)
    ([k res, Query 4 (c_str (sql_ListFriends 2)) k'], sys_at (mem_pool\<lparr>dp_idle := []\<rparr>)
       (sql_update ?s (next_serial ?s no_tables) no_tables) [Holding 3, Holding 4])"
    using threads_reach.step [OF run threads_step.query [of 0 _ 3 _ k mem_pg _ res]] x
    by (simp del: stmt_text.simps sql_update.simps)
  from threads_keep_consent [OF pg_conforms_answers [OF mem_pg_conforms] refl this, THEN conjunct1] this
  show ?thesis
    by (intro exI [of _ "[k res, Query 4 (c_str (sql_ListFriends 2)) k']"]
        exI [of _ "sys_at (mem_pool\<lparr>dp_idle := []\<rparr>) (sql_update ?s (next_serial ?s no_tables) no_tables)
          [Holding 3, Holding 4]"]) simp
qed

end
