(* ===== verification/Gateway_Main.thy ===== *)
theory Gateway_Main
  imports Config
begin

text \<open>
  The start of the gateway process, \<open>main\<close> and \<open>RunGrpcServer\<close> of \<open>server/gateway/main.cc\<close>:
  load the settings, start the thread of the gRPC server, create the stub for the logic server
  and listen on port 8000. gRPC and uWebSockets are parameters: whether an address can be
  bound.
\<close>

text \<open>
  \<open>BuildAndStart\<close> answers a null pointer when no port could be bound, and the code calls
  \<open>Wait\<close> through it: \<open>GwCrash\<close>. \<open>GwServing\<close> has the address of the gRPC server, the address of
  the logic server and the WebSocket port.
\<close>

datatype gateway_start =
    GwExit int
  | GwCrash
  | GwServing string string nat

definition RunGrpcServer :: "(string \<Rightarrow> bool) \<Rightarrow> ServerConfig \<Rightarrow> string option" where
  "RunGrpcServer grpc_binds cfg =
     (let server_address = gc_gateway_server_listen_addr (sv_grpc cfg)
      in if grpc_binds server_address then Some server_address else None)"

text \<open>The callback of \<open>listen\<close>: the process exits when there is no socket.\<close>

definition on_listen :: "bool \<Rightarrow> int option" where
  "on_listen listen_socket = (if listen_socket then None else Some (-1))"

text \<open>
  When neither address can be bound, the exit of the main thread races with the crash of the
  other one; the model takes the exit.
\<close>

definition gateway_main :: "'y yaml \<Rightarrow> (string \<Rightarrow> bool) \<Rightarrow> (nat \<Rightarrow> bool) \<Rightarrow> ServerConfig \<Rightarrow> gateway_start" where
  "gateway_main y grpc_binds listens cfg0 =
     (case Load y ''../config.yaml'' cfg0 of
        (False, cfg) \<Rightarrow> GwExit 1
      | (True, cfg) \<Rightarrow>
          (case on_listen (listens 8000) of
             Some code \<Rightarrow> GwExit code
           | None \<Rightarrow>
               (case RunGrpcServer grpc_binds cfg of
                  None \<Rightarrow> GwCrash
                | Some grpc \<Rightarrow> GwServing grpc (gc_logic_server_addr (sv_grpc cfg)) 8000)))"

lemma gateway_main_serving:
  "gateway_main y grpc_binds listens cfg0 = GwServing grpc logic port \<longleftrightarrow>
     (\<exists>cfg. Load y ''../config.yaml'' cfg0 = (True, cfg) \<and> listens 8000 \<and> port = 8000 \<and>
        grpc = gc_gateway_server_listen_addr (sv_grpc cfg) \<and> grpc_binds grpc \<and>
        logic = gc_logic_server_addr (sv_grpc cfg))"
  by (auto simp: gateway_main_def on_listen_def RunGrpcServer_def Let_def split: prod.splits bool.splits)

lemma gateway_main_exit:
  "gateway_main y grpc_binds listens cfg0 = GwExit code \<longleftrightarrow>
     (code = 1 \<and> \<not> fst (Load y ''../config.yaml'' cfg0)) \<or>
     (code = -1 \<and> fst (Load y ''../config.yaml'' cfg0) \<and> \<not> listens 8000)"
  by (auto simp: gateway_main_def on_listen_def RunGrpcServer_def Let_def split: prod.splits bool.splits)

end
