(* ===== verification/Spec2Isabelle.thy ===== *)
theory Spec2Isabelle
  imports Chat_System Chat_Threads Gateway_Main
begin

text \<open>
  A verification library for the LetsChat servers.

  \<^bold>\<open>The program.\<close> Two processes. The gateway (\<open>src/server/gateway/main.cc\<close>) holds the WebSocket
  connections of the clients, cuts their messages into a twelve byte header and a protobuf
  body (\<open>packet.h\<close>), forwards requests to the logic server over gRPC, offers registration and
  login over HTTP, and pushes packets that the logic server sends it. The logic server
  (\<open>src/server/logic_server/main.cc\<close>) has ten handlers over PostgreSQL, Redis and a SeaweedFS
  storage, each behind a client class: \<open>pool_db_client.cc\<close> and \<open>pool_redis_client.cc\<close> on the
  connection pools \<open>db_pool.cc\<close> and \<open>redis_pool.cc\<close>, and \<open>s3_client.h\<close>. Both read their
  settings with \<open>src/common/config/config.h\<close>.

  \<^bold>\<open>Theories.\<close>
  \<^item> \<open>Prelude\<close>: machine types, exceptions as values of a sum (\<open>throws\<close>), lists.
  \<^item> \<open>Cpp_Text\<close>: what the code uses of the standard library on text (\<open>find\<close>, \<open>substr\<close>,
    \<open>stoi\<close>, \<open>stoll\<close>, \<open>to_string\<close>, C strings).
  \<^item> \<open>Im_Proto\<close>: the messages of \<open>src/proto\<close> as records with their proto3 defaults.
  \<^item> \<open>Packet\<close>: \<open>EncodeHeader\<close>, \<open>DecodeHeader\<close> and \<open>PackPushMsg\<close> for hosts of either byte
    order; the framing laws are the locale \<open>wire_codec\<close>.
  \<^item> \<open>Keyed_Store\<close>: the contract of the in-memory tables, locales \<open>keyed_store\<close> and
    \<open>keyed_store_del\<close>, interpreted on the storage client and on the session manager.
  \<^item> \<open>Conn_Pool\<close>: the scheme of both pools. The critical sections are parameters; the loop of
    \<open>Acquire\<close>, the interleaving of threads at the mutex (\<open>pool_step\<close>) and the scope of a guard
    are defined once, under the locales \<open>pool_laws\<close> and \<open>guard_laws\<close>. \<open>Db_Pool\<close> and
    \<open>Redis_Pool\<close> hold the code's critical sections and interpret both.
  \<^item> \<open>Db_Client\<close>: the thirteen implemented functions of \<open>PooledDbClient\<close> over libpq as a
    parameter, with the text of every statement. \<open>Sql_Model\<close> is the abstract meaning of the
    statements on five tables and the contract \<open>pg_conforms\<close> of a server; \<open>Sql_Engine\<close> is an
    executable server that parses the text and meets the contract; \<open>Db_Spec\<close> shows that the
    functions refine operations on the tables. \<open>Redis_Client\<close> does the same for Redis.
  \<^item> \<open>S3_Client\<close>: endpoint parsing, the JSON scanner, the HTTP client over sockets as a
    parameter, and the URL operations.
  \<^item> \<open>Config\<close>: \<open>Config::Load\<close>; an exception leaves the fields before it assigned.
  \<^item> \<open>Logic_Server\<close>: the handlers on the state \<open>logic\<close> (both pools with their worlds, the
    storage client, the outside world) and the start of the process. \<open>Logic_Spec\<close>: what each
    handler guarantees. \<open>Chat_Service\<close>: the abstract service \<open>service_step\<close> on the tables, the
    proof that every request refines it, and the invariants that follow. \<open>Chat_Threads\<close>: the same
    requests as trees of actions (\<open>task\<close>: acquire, clock, statement text, clear, release), shown equal
    to the handlers when they run alone (\<open>handler_task_equiv\<close>), and their interleaving on any
    number of threads over the steps of the pool.
  \<^item> \<open>Gateway\<close>: session table, push service and WebSocket handlers on the state \<open>gateway\<close> (the
    open sockets with their user numbers, the session table, the frames sent, the world behind
    the stub). \<open>Gateway_Spec\<close>: one message. \<open>Gateway_Sessions\<close>: the event loop as a step
    relation and the life of the session table. \<open>Http_Api\<close>: the HTTP handlers over
    nlohmann::json as a parameter. \<open>Gateway_Main\<close>: the start of the process.
  \<^item> \<open>Chat_System\<close>: the gateway with the handlers of the logic server behind its stub.

  \<^bold>\<open>What is shown.\<close> A message sent on one socket is lost or reaches the next synchronisation of
  the friend it is for, under its true sender; accounts made over HTTP can log in and connect.
  The logic server refines the abstract service under every failure of the pool and the
  database, so messages are stored only between friends and friendships stem from requests, also
  when the statements of concurrent requests interleave; this holds for requests whose text has
  no apostrophe and no zero byte (\<open>clean_req\<close>), and fails without that. The pools never lose or
  share a connection in any interleaving, the handlers use one only while they hold it, and
  when at most \<open>k\<close> threads connect at the same time the database pool holds at most
  \<open>max_pool_ + k - 1\<close> connections, a bound that is reached. What is set in Redis is got. Headers,
  statements and endpoints round-trip. The gateway answers with matching frames, forwards
  requests under the number of their socket, and pushes safely as long as no socket logs in
  twice under different numbers. The same theorems delimit what goes wrong: the over-read of
  the login branch, the dangling session after a second login, the session lost when an older
  socket closes, the routes that are written under one key and read under another, the overshoot
  of the pools, the result leaked by an exception, statements forged by an apostrophe.

  \<^bold>\<open>Partiality.\<close> \<open>None\<close> is undefined behaviour in the gateway (a read outside the message, a
  destroyed socket) and not returning in the HTTP client of the storage, whose receive loop is a
  \<open>partial_function\<close>; \<open>HttpGet_body\<close> says when it returns. All other functions are total. The
  loop of \<open>Acquire\<close> takes the list of its wake-ups, so a finite list stands for a thread that
  still waits. Counters and message fields keep their width; \<open>size_t\<close> counters write out their
  wrap-around. Message lengths are assumed below \<open>2 ^ 31\<close>, far above the limit of 16 KiB that
  uWebSockets enforces. A length given to the protobuf parser that reaches outside the message
  counts as undefined although the parser may stop at a malformed byte before.

  \<^bold>\<open>Parameters.\<close> The code under \<open>src\<close> calls libpq, hiredis, POSIX sockets, yaml-cpp, nlohmann::json,
  uWebSockets and the generated protobuf and gRPC classes. Each is a record of functions that
  the definitions take; what is relied on is named where it is used (\<open>pg_conforms\<close>,
  \<open>pg_reliable\<close>, \<open>redis_conforms\<close>, \<open>redis_reliable\<close>, \<open>conn_frame\<close>) and has an executable instance
  that the witnesses run on. A command to Redis whose reply is lost may have been executed.
  \<open>pg_conforms\<close> takes a failed statement as rolled back; \<open>pg_answers\<close>, which the properties about
  threads need, also allows that it was executed and its answer lost with the connection.

  \<^bold>\<open>Not modelled.\<close> Log output; the wire format of protobuf; TLS and the network between the
  processes; the nine functions that \<open>pool_db_client.h\<close> declares without an implementation. A
  handler in \<open>Logic_Server\<close> runs as one step; \<open>Chat_Threads\<close> interleaves the actions of the handlers on
  the database and its pool, but not those on Redis and the storage.
  \<open>ws->send\<close> from the gRPC thread is taken as atomic
  although uWebSockets does not allow it from another thread than the loop's. That
  \<open>BuildAndStart\<close> may answer a null pointer is modelled for the gateway only.
\<close>

end
